theory Spec2Isabelle
  imports Main "HOL-Library.Sublist"
begin

section \<open>postbuild: the HTML asset injector\<close>

text \<open>
  The repository holds the tool twice: \<^verbatim>\<open>postbuild.mjs\<close> (an ES module) and a CommonJS
  script with the same functions plus the \<^verbatim>\<open>--async\<close> and \<^verbatim>\<open>--defer\<close> options. Constants
  taken from the ES module carry the suffix \<open>_mjs\<close>, constants taken from the CommonJS
  script the suffix \<open>_cjs\<close>; a function whose text is the same in both files and that
  no claim compares is embedded once.

  Text is a \<^typ>\<open>string\<close>, one \<^typ>\<open>char\<close> per byte and per code unit. The packages
  the tool imports (\<^verbatim>\<open>glob\<close>, \<^verbatim>\<open>node:fs\<close>, \<^verbatim>\<open>node:path\<close>, \<^verbatim>\<open>node:crypto\<close>,
  \<^verbatim>\<open>node:child_process\<close>) are taken as an environment, in which a file is known by
  its path. The streams are embedded as they run: the read stream cuts the file into
  chunks, and \<^verbatim>\<open>replacestream\<close> is embedded by its \<^verbatim>\<open>transform\<close> and \<^verbatim>\<open>flush\<close>, which
  see a chunk at a time and carry a tail from one chunk to the next.
\<close>

subsection \<open>Exceptions\<close>

text \<open>
  What a call may throw: a system error with its code (\<^verbatim>\<open>ENOENT\<close>, \<^verbatim>\<open>EACCES\<close>), a
  reference to a name that is not in scope, any other error with its message.
\<close>

datatype exn =
  SystemError string
  | ReferenceError string
  | Error string

fun bind :: "exn + 'a \<Rightarrow> ('a \<Rightarrow> exn + 'b) \<Rightarrow> exn + 'b" where
  "bind (Inl e) k = Inl e"
| "bind (Inr x) k = k x"

subsection \<open>String and array methods\<close>

text \<open>\<^verbatim>\<open>Array.prototype.join(sep)\<close> on an array of strings.\<close>

fun join :: "string \<Rightarrow> string list \<Rightarrow> string" where
  "join sep [] = []"
| "join sep [x] = x"
| "join sep (x # y # ys) = x @ sep @ join sep (y # ys)"

text \<open>
  \<^verbatim>\<open>String.prototype.endsWith(searchString)\<close>: the search string is compared with the
  last \<open>length searchString\<close> code units, and a longer search string is never found.
\<close>

definition endsWith :: "string \<Rightarrow> string \<Rightarrow> bool" where
  "endsWith str searchString =
     (length searchString \<le> length str \<and>
      drop (length str - length searchString) str = searchString)"

text \<open>\<^verbatim>\<open>String.prototype.slice(start)\<close> for a start that is a length.\<close>

definition slice :: "string \<Rightarrow> nat \<Rightarrow> string" where
  "slice str start = drop start str"

text \<open>
  \<^verbatim>\<open>String.prototype.split(sep)\<close> for a separator of one character; the result always
  has an element.
\<close>

fun split :: "char \<Rightarrow> string \<Rightarrow> string list" where
  "split sep [] = [[]]"
| "split sep (c # cs) =
     (if c = sep then [] # split sep cs
      else (case split sep cs of [] \<Rightarrow> [[c]] | t # ts \<Rightarrow> (c # t) # ts))"

text \<open>\<^verbatim>\<open>Array.prototype.pop()\<close>, read for its value: \<open>None\<close> is \<^verbatim>\<open>undefined\<close>.\<close>

fun pop :: "'a list \<Rightarrow> 'a option" where
  "pop [] = None"
| "pop [x] = Some x"
| "pop (x # y # ys) = pop (y # ys)"

text \<open>A value spliced into a template literal: \<^verbatim>\<open>undefined\<close> prints as its name.\<close>

fun template_value :: "string option \<Rightarrow> string" where
  "template_value None = ''undefined''"
| "template_value (Some s) = s"

subsection \<open>The replace stream\<close>

text \<open>
  \<open>split_at_first m doc\<close> finds the leftmost occurrence of the literal \<open>m\<close> and returns
  the text before it and the text after it.
\<close>

fun split_at_first :: "'a list \<Rightarrow> 'a list \<Rightarrow> ('a list \<times> 'a list) option" where
  "split_at_first m [] = (if m = [] then Some ([], []) else None)"
| "split_at_first m (c # cs) =
     (if prefix m (c # cs) then Some ([], drop (length m) (c # cs))
      else (case split_at_first m cs of
              None \<Rightarrow> None
            | Some (pre, post) \<Rightarrow> Some (c # pre, post)))"

text \<open>
  A regular expression is embedded by what \<^verbatim>\<open>exec\<close> finds in a text: the leftmost
  match, with the text before it and the text after it.

  \<open>regexp_region s e\<close> is \<^verbatim>\<open>/(s)([\s\S]*?)(e)/gm\<close> for literal markers \<open>s\<close> and \<open>e\<close>:
  the leftmost match starts at the first \<open>s\<close> and, the middle group being lazy, ends
  with the first \<open>e\<close> after it; where the first \<open>s\<close> has no \<open>e\<close> after it no later \<open>s\<close>
  has one either. \<open>regexp_literal m\<close> is \<^verbatim>\<open>/(m)/gm\<close> for a literal \<open>m\<close>.
\<close>

type_synonym regexp = "string \<Rightarrow> (string \<times> string \<times> string) option"

definition regexp_region :: "string \<Rightarrow> string \<Rightarrow> regexp" where
  "regexp_region s e haystack =
     (case split_at_first s haystack of
        None \<Rightarrow> None
      | Some (before, rest) \<Rightarrow>
          (case split_at_first e rest of
             None \<Rightarrow> None
           | Some (mid, after) \<Rightarrow> Some (before, s @ mid @ e, after)))"

definition regexp_literal :: "string \<Rightarrow> regexp" where
  "regexp_literal m haystack =
     (case split_at_first m haystack of
        None \<Rightarrow> None
      | Some (before, after) \<Rightarrow> Some (before, m, after))"

text \<open>
  The loop of \<^verbatim>\<open>transform\<close> in \<^verbatim>\<open>replacestream\<close>: \<^verbatim>\<open>exec\<close> is called on the haystack
  until it finds nothing more, each time from the end of the last match, and the text
  before a match and the replacement of the match are appended to \<^verbatim>\<open>rewritten\<close>. The
  result is \<^verbatim>\<open>rewritten\<close> and the haystack from \<^verbatim>\<open>lastPos\<close> on. A match that
  consumes nothing is no case of the program and ends the loop.
\<close>

function exec_all :: "regexp \<Rightarrow> (string \<Rightarrow> string) \<Rightarrow> string \<Rightarrow> string \<times> string" where
  "exec_all re replaceFn haystack =
     (case re haystack of
        None \<Rightarrow> ([], haystack)
      | Some (before, m, after) \<Rightarrow>
          if length after < length haystack then
            (case exec_all re replaceFn after of
               (rewritten, rest) \<Rightarrow> (before @ replaceFn m @ rewritten, rest))
          else ([], haystack))"
  by pat_completeness auto
termination
  by (relation "measure (\<lambda>(re, replaceFn, haystack). length haystack)") auto

declare exec_all.simps [simp del]

text \<open>
  \<^verbatim>\<open>transform(buf, enc, cb)\<close>: the haystack is the tail kept from the chunks before
  and the new chunk. Of the text behind the last match the last \<^verbatim>\<open>maxMatchLen\<close>
  characters, 100 by default, are kept as the new tail; what is before them goes out
  with the rewritten text.
\<close>

definition maxMatchLen :: nat where
  "maxMatchLen = 100"

definition transform_chunk ::
  "regexp \<Rightarrow> (string \<Rightarrow> string) \<Rightarrow> string \<Rightarrow> string \<Rightarrow> string \<times> string" where
  "transform_chunk re replaceFn tail buf =
     (let haystack = tail @ buf in
      case exec_all re replaceFn haystack of
        (rewritten, rest) \<Rightarrow>
          (let tail' = (if length rest > maxMatchLen then drop (length rest - maxMatchLen) rest
                        else rest)
           in (rewritten @ take (length rest - length tail') rest, tail')))"

text \<open>A chunk goes to the next stream unless it is empty.\<close>

fun push :: "string \<Rightarrow> string list \<Rightarrow> string list" where
  "push chunk chunks = (if chunk = [] then chunks else chunk # chunks)"

text \<open>
  The stream from a given tail on: each chunk is transformed, and when the input ends
  \<^verbatim>\<open>flush\<close> pushes the tail as it is.
\<close>

fun replaceStream_from ::
  "regexp \<Rightarrow> (string \<Rightarrow> string) \<Rightarrow> string \<Rightarrow> string list \<Rightarrow> string list" where
  "replaceStream_from re replaceFn tail [] = push tail []"
| "replaceStream_from re replaceFn tail (buf # bufs) =
     (case transform_chunk re replaceFn tail buf of
        (dataToQueue, tail') \<Rightarrow> push dataToQueue (replaceStream_from re replaceFn tail' bufs))"

definition replaceStream :: "regexp \<Rightarrow> (string \<Rightarrow> string) \<Rightarrow> string list \<Rightarrow> string list" where
  "replaceStream re replaceFn chunks = replaceStream_from re replaceFn [] chunks"

text \<open>
  \<^verbatim>\<open>fs.createReadStream\<close> hands a file over in chunks of \<^verbatim>\<open>highWaterMark\<close> bytes, 64 KiB
  by default, the last one shorter; an empty file has no chunk.
\<close>

definition highWaterMark :: nat where
  "highWaterMark = 65536"

function createReadStream :: "string \<Rightarrow> string list" where
  "createReadStream content =
     (if content = [] then []
      else take highWaterMark content # createReadStream (drop highWaterMark content))"
  by pat_completeness auto
termination
  by (relation "measure length") (auto simp: highWaterMark_def)

declare createReadStream.simps [simp del]

subsection \<open>The four stages\<close>

text \<open>
  Each stage is one \<^verbatim>\<open>.pipe(replaceStream(...))\<close> of the chain. The replacement
  function of an inject stage answers the joined fragments when there are any and
  the match \<^verbatim>\<open>$0\<close> itself otherwise.
\<close>

definition inject_js :: "string list \<Rightarrow> string list \<Rightarrow> string list" where
  "inject_js jsFiles chunks =
     replaceStream (regexp_region ''<!-- inject:js -->'' ''<!-- endinject -->'')
       (\<lambda>m. if length jsFiles > 0 then join [CHR 0x0A] jsFiles else m) chunks"

definition inject_css :: "string list \<Rightarrow> string list \<Rightarrow> string list" where
  "inject_css cssFiles chunks =
     replaceStream (regexp_region ''<!-- inject:css -->'' ''<!-- endinject -->'')
       (\<lambda>m. if length cssFiles > 0 then join [CHR 0x0A] cssFiles else m) chunks"

text \<open>
  The replacement of the third stage is the template \<^verbatim>\<open>`<!-- ${revision} -->`\<close>, a
  text. A replacement text may refer to a group of the match as \<^verbatim>\<open>$1\<close>; the stage is
  embedded for a revision that has no \<^verbatim>\<open>$\<close>, as both values the program gives it are.
\<close>

definition inject_git_hash :: "string \<Rightarrow> string list \<Rightarrow> string list" where
  "inject_git_hash revision chunks =
     replaceStream (regexp_literal ''<!-- inject:git-hash -->'')
       (\<lambda>m. ''<!-- '' @ revision @ '' -->'') chunks"

text \<open>
  The fourth stage builds its expression with \<^verbatim>\<open>new RegExp\<close> from a template that
  splices the remove condition in as it is. A condition of pattern characters stands
  for itself. A syntax character of the pattern grammar in the condition changes what
  the expression matches, or makes it no expression at all; that is outside this
  embedding, and the stage is \<open>None\<close> there.
\<close>

definition syntax_character :: "char \<Rightarrow> bool" where
  "syntax_character c =
     (c \<in> set [CHR ''^'', CHR ''$'', CHR 0x5C, CHR ''.'', CHR ''*'', CHR ''+'', CHR ''?'',
               CHR ''('', CHR '')'', CHR ''['', CHR '']'', CHR ''{'', CHR ''}'', CHR ''|''])"

definition remove_stage :: "string \<Rightarrow> string list \<Rightarrow> string list option" where
  "remove_stage removeCondition chunks =
     (if list_ex syntax_character removeCondition then None
      else Some (replaceStream
                   (regexp_region (''<!-- remove:'' @ removeCondition @ '' -->'')
                      ''<!-- endremove -->'')
                   (\<lambda>m. []) chunks))"

text \<open>The chain of the four streams, in each of the two files.\<close>

definition transform_mjs ::
  "string list \<Rightarrow> string list \<Rightarrow> string \<Rightarrow> string \<Rightarrow> string list \<Rightarrow> string list option" where
  "transform_mjs jsFiles cssFiles revision removeCondition chunks =
     remove_stage removeCondition
       (inject_git_hash revision (inject_css cssFiles (inject_js jsFiles chunks)))"

definition transform_cjs ::
  "string list \<Rightarrow> string list \<Rightarrow> string \<Rightarrow> string \<Rightarrow> string list \<Rightarrow> string list option" where
  "transform_cjs jsFiles cssFiles revision removeCondition chunks =
     remove_stage removeCondition
       (inject_git_hash revision (inject_css cssFiles (inject_js jsFiles chunks)))"

text \<open>
  The replacement that the specification describes, one pass over the whole text:
  what \<^verbatim>\<open>String.prototype.replace\<close> with a global expression gives. The stream is
  compared with it below.
\<close>

definition replace_buffered :: "regexp \<Rightarrow> (string \<Rightarrow> string) \<Rightarrow> string \<Rightarrow> string" where
  "replace_buffered re replaceFn text =
     (case exec_all re replaceFn text of (rewritten, rest) \<Rightarrow> rewritten @ rest)"

text \<open>Every match of that pass is at most \<open>n\<close> characters long.\<close>

function matches_within :: "nat \<Rightarrow> regexp \<Rightarrow> string \<Rightarrow> bool" where
  "matches_within n re text =
     (case re text of
        None \<Rightarrow> True
      | Some (before, m, after) \<Rightarrow>
          if length after < length text then length m \<le> n \<and> matches_within n re after
          else True)"
  by pat_completeness auto
termination
  by (relation "measure (\<lambda>(n, re, text). length text)") auto

declare matches_within.simps [simp del]

subsection \<open>The environment\<close>

text \<open>What \<^verbatim>\<open>lstat\<close> answers: \<open>Other\<close> is a link, a socket, a device or a pipe.\<close>

datatype stats = File | Directory | Other

fun isDirectory :: "stats \<Rightarrow> bool" where
  "isDirectory Directory = True"
| "isDirectory _ = False"

fun isFile :: "stats \<Rightarrow> bool" where
  "isFile File = True"
| "isFile _ = False"

record exec_result =
  stdout :: string
  stderr :: string

text \<open>
  \<open>createHash\<close> is \<^verbatim>\<open>crypto.createHash('sha')\<close> followed by \<^verbatim>\<open>update\<close> and
  \<^verbatim>\<open>digest('hex')\<close>: creating the hash may fail, the digest of a text is its hexadecimal
  string. \<open>exec\<close> is the promisified \<^verbatim>\<open>child_process.exec\<close>.
\<close>

record env =
  cwd :: string
  path_join :: "string \<Rightarrow> string \<Rightarrow> string"
  hasMagic :: "string \<Rightarrow> bool"
  glob :: "string \<Rightarrow> exn + string list"
  lstat :: "string \<Rightarrow> exn + stats"
  readdir :: "string \<Rightarrow> exn + string list"
  readFile :: "string \<Rightarrow> exn + string"
  createHash :: "exn + (string \<Rightarrow> string)"
  exec :: "string \<Rightarrow> exn + exec_result"

subsection \<open>Options\<close>

text \<open>
  The object that \<^verbatim>\<open>commander\<close> returns: an option with an argument is \<open>None\<close> when it
  is not given, a flag is a \<^typ>\<open>bool\<close>. The first three fields are the ones the tag
  functions destructure; the last two exist in the CommonJS script only.
\<close>

record render_options =
  inline :: bool
  ignore :: "string option"
  etag :: bool

record options = render_options +
  input :: "string option"
  output' :: "string option"
  css :: "string option"
  js :: "string option"
  remove :: "string option"
  hash :: bool

record options_cjs = options +
  async :: bool
  defer' :: bool

text \<open>A string option in a condition: absent and empty are both false.\<close>

fun truthy :: "string option \<Rightarrow> bool" where
  "truthy None = False"
| "truthy (Some s) = (s \<noteq> [])"

subsection \<open>The pattern resolver\<close>

text \<open>
  \<^verbatim>\<open>pattern.replace(/^['"](.+)["']$/, '$1')\<close>: one quote at each end goes when
  something is between them and nothing between them ends a line.
\<close>

definition line_terminator :: "char \<Rightarrow> bool" where
  "line_terminator c = (c = CHR 0x0A \<or> c = CHR 0x0D)"

definition is_quote :: "char \<Rightarrow> bool" where
  "is_quote c = (c = CHR 0x27 \<or> c = CHR 0x22)"

definition unwrappedPattern :: "string \<Rightarrow> string" where
  "unwrappedPattern pattern =
     (case pattern of
        [] \<Rightarrow> pattern
      | c # cs \<Rightarrow>
          if is_quote c \<and> cs \<noteq> [] \<and> is_quote (last cs) \<and> butlast cs \<noteq> [] \<and>
             \<not> list_ex line_terminator (butlast cs)
          then butlast cs else pattern)"

definition patternToFileNames :: "env \<Rightarrow> string \<Rightarrow> string \<Rightarrow> exn + string list" where
  "patternToFileNames env pattern extension =
     (if hasMagic env pattern then glob env (unwrappedPattern pattern)
      else
        bind (lstat env pattern) (\<lambda>stats.
          if isDirectory stats then
            bind (readdir env pattern) (\<lambda>fileNames.
              Inr (map (\<lambda>file. path_join env pattern file)
                     (filter (\<lambda>file. endsWith file extension) fileNames)))
          else if isFile stats then Inr [pattern]
          else Inr []))"

subsection \<open>The tag generator\<close>

definition appendETagSHAToFilename :: "env \<Rightarrow> string \<Rightarrow> exn + string" where
  "appendETagSHAToFilename env filename =
     bind (createHash env) (\<lambda>sha.
       bind (readFile env filename) (\<lambda>content.
         Inr (filename @ ''?etag='' @ sha content)))"

text \<open>
  \<^verbatim>\<open>for (const fileName of fileNames) { ... tags.push(...) }\<close> with a body that awaits:
  the files are taken in order and the first exception ends the loop.
\<close>

fun for_of :: "('a \<Rightarrow> exn + 'b) \<Rightarrow> 'a list \<Rightarrow> exn + 'b list" where
  "for_of body [] = Inr []"
| "for_of body (x # xs) =
     (case body x of
        Inl e \<Rightarrow> Inl e
      | Inr tag \<Rightarrow> (case for_of body xs of Inl e \<Rightarrow> Inl e | Inr tags \<Rightarrow> Inr (tag # tags)))"

text \<open>The body of the loop of \<^verbatim>\<open>filePatternToScriptTags\<close> in the ES module.\<close>

definition scriptTag_mjs :: "env \<Rightarrow> 'a render_options_scheme \<Rightarrow> string \<Rightarrow> exn + string" where
  \<open>scriptTag_mjs env opts fileName =
     (if inline opts then
        bind (readFile env fileName) (\<lambda>content. Inr (''<script>'' @ content @ ''</script>''))
      else
        (let path = fileName;
             path = (case ignore opts of Some ig \<Rightarrow> slice path (length ig) | None \<Rightarrow> path)
         in bind (if etag opts then appendETagSHAToFilename env path else Inr path)
              (\<lambda>path. Inr (''<script src="'' @ path @ ''"></script>''))))\<close>

definition filePatternToScriptTags_mjs ::
  "env \<Rightarrow> string \<Rightarrow> 'a render_options_scheme \<Rightarrow> exn + string list" where
  "filePatternToScriptTags_mjs env pattern opts =
     bind (patternToFileNames env pattern ''.js'') (for_of (scriptTag_mjs env opts))"

definition styleTag_mjs :: "env \<Rightarrow> 'a render_options_scheme \<Rightarrow> string \<Rightarrow> exn + string" where
  \<open>styleTag_mjs env opts fileName =
     (if inline opts then
        bind (readFile env fileName) (\<lambda>content. Inr (''<style>'' @ content @ ''</style>''))
      else
        (let path = fileName;
             path = (case ignore opts of Some ig \<Rightarrow> slice path (length ig) | None \<Rightarrow> path)
         in bind (if etag opts then appendETagSHAToFilename env path else Inr path)
              (\<lambda>path. Inr (''<link rel="stylesheet" href="'' @ path @ ''">''))))\<close>

definition filePatternToStyleTags_mjs ::
  "env \<Rightarrow> string \<Rightarrow> 'a render_options_scheme \<Rightarrow> exn + string list" where
  "filePatternToStyleTags_mjs env pattern opts =
     bind (patternToFileNames env pattern ''.css'') (for_of (styleTag_mjs env opts))"

text \<open>
  The same two functions in the CommonJS script. The script tag is built from a list
  of attributes, to which \<^verbatim>\<open>async\<close> is pushed when it is asked for and \<^verbatim>\<open>defer\<close> in the
  \<^verbatim>\<open>else if\<close>.
\<close>

definition attributes_cjs :: "'a options_cjs_scheme \<Rightarrow> string \<Rightarrow> string list" where
  \<open>attributes_cjs opts path =
     (let attributes = [''src="'' @ path @ ''"'']
      in if async opts then attributes @ [''async'']
         else if defer' opts then attributes @ [''defer'']
         else attributes)\<close>

definition scriptTag_cjs :: "env \<Rightarrow> 'a options_cjs_scheme \<Rightarrow> string \<Rightarrow> exn + string" where
  \<open>scriptTag_cjs env opts fileName =
     (if inline opts then
        bind (readFile env fileName) (\<lambda>content. Inr (''<script>'' @ content @ ''</script>''))
      else
        (let path = fileName;
             path = (case ignore opts of Some ig \<Rightarrow> slice path (length ig) | None \<Rightarrow> path)
         in bind (if etag opts then appendETagSHAToFilename env path else Inr path)
              (\<lambda>path. Inr (''<script '' @ join '' '' (attributes_cjs opts path) @ ''></script>''))))\<close>

definition filePatternToScriptTags_cjs ::
  "env \<Rightarrow> string \<Rightarrow> 'a options_cjs_scheme \<Rightarrow> exn + string list" where
  "filePatternToScriptTags_cjs env pattern opts =
     bind (patternToFileNames env pattern ''.js'') (for_of (scriptTag_cjs env opts))"

definition styleTag_cjs :: "env \<Rightarrow> 'a render_options_scheme \<Rightarrow> string \<Rightarrow> exn + string" where
  \<open>styleTag_cjs env opts fileName =
     (if inline opts then
        bind (readFile env fileName) (\<lambda>content. Inr (''<style>'' @ content @ ''</style>''))
      else
        (let path = fileName;
             path = (case ignore opts of Some ig \<Rightarrow> slice path (length ig) | None \<Rightarrow> path)
         in bind (if etag opts then appendETagSHAToFilename env path else Inr path)
              (\<lambda>path. Inr (''<link rel="stylesheet" href="'' @ path @ ''">''))))\<close>

definition filePatternToStyleTags_cjs ::
  "env \<Rightarrow> string \<Rightarrow> 'a render_options_scheme \<Rightarrow> exn + string list" where
  "filePatternToStyleTags_cjs env pattern opts =
     bind (patternToFileNames env pattern ''.css'') (for_of (styleTag_cjs env opts))"

subsection \<open>The program\<close>

text \<open>
  How a run ends: \<open>Exit msg\<close> is \<^verbatim>\<open>handleError(msg)\<close>, the message on standard error and
  exit code 1; \<open>Uncaught e\<close> is an exception that nothing catches, for which the runtime
  prints \<open>e\<close> on standard error and exits with code 1; \<open>Written file text\<close> is the output
  file with its content.
\<close>

datatype outcome =
  Exit string
  | Uncaught exn
  | Written string string

definition getFullPath :: "env \<Rightarrow> string \<Rightarrow> string" where
  "getFullPath env file = path_join env (cwd env) file"

definition resolve_input :: "env \<Rightarrow> 'a options_scheme \<Rightarrow> outcome + string" where
  "resolve_input env options =
     (case input options of
        None \<Rightarrow> Inl (Exit ''Please specify an input file'')
      | Some i \<Rightarrow>
          (let inputFile = getFullPath env i in
           case lstat env inputFile of
             Inl e \<Rightarrow> Inl (Exit (''File '' @ [CHR 0x27] @ inputFile @ [CHR 0x27] @ '' not found''))
           | Inr stat \<Rightarrow>
               if isDirectory stat then
                 Inl (Exit ([CHR 0x27] @ inputFile @ [CHR 0x27] @
                            '' is a directory, please specify an input file''))
               else if isFile stat = False then
                 Inl (Exit (''File '' @ [CHR 0x27] @ inputFile @ [CHR 0x27] @ '' not found''))
               else Inr inputFile))"

definition outputFile :: "env \<Rightarrow> 'a options_scheme \<Rightarrow> string \<Rightarrow> string" where
  "outputFile env options inputFile =
     (case output' options of
        None \<Rightarrow> inputFile
      | Some out \<Rightarrow> if out = [] then inputFile else getFullPath env out)"

text \<open>
  The two \<^verbatim>\<open>catch\<close> blocks of the ES module build their message from \<^verbatim>\<open>${js}\<close> and
  \<^verbatim>\<open>${css}\<close>. The module binds neither name, so evaluating the template throws before
  \<^verbatim>\<open>handleError\<close> is called.
\<close>

definition resolve_js_mjs :: "env \<Rightarrow> 'a options_scheme \<Rightarrow> outcome + string list" where
  "resolve_js_mjs env options =
     (if truthy (js options) then
        (case filePatternToScriptTags_mjs env (the (js options)) options of
           Inr tags \<Rightarrow> Inr tags
         | Inl e \<Rightarrow> Inl (Uncaught (ReferenceError ''js'')))
      else Inr [])"

definition resolve_css_mjs :: "env \<Rightarrow> 'a options_scheme \<Rightarrow> outcome + string list" where
  "resolve_css_mjs env options =
     (if truthy (css options) then
        (case filePatternToStyleTags_mjs env (the (css options)) options of
           Inr tags \<Rightarrow> Inr tags
         | Inl e \<Rightarrow> Inl (Uncaught (ReferenceError ''css'')))
      else Inr [])"

text \<open>The CommonJS script reads the pattern from \<^verbatim>\<open>options\<close>.\<close>

definition resolve_js_cjs :: "env \<Rightarrow> 'a options_cjs_scheme \<Rightarrow> outcome + string list" where
  "resolve_js_cjs env options =
     (if truthy (js options) then
        (case filePatternToScriptTags_cjs env (the (js options)) options of
           Inr tags \<Rightarrow> Inr tags
         | Inl e \<Rightarrow>
             Inl (Exit (''File or folder '' @ [CHR 0x27] @ the (js options) @ [CHR 0x27] @
                        '' not found'')))
      else Inr [])"

definition resolve_css_cjs :: "env \<Rightarrow> 'a options_cjs_scheme \<Rightarrow> outcome + string list" where
  "resolve_css_cjs env options =
     (if truthy (css options) then
        (case filePatternToStyleTags_cjs env (the (css options)) options of
           Inr tags \<Rightarrow> Inr tags
         | Inl e \<Rightarrow>
             Inl (Exit (''File or folder '' @ [CHR 0x27] @ the (css options) @ [CHR 0x27] @
                        '' not found'')))
      else Inr [])"

text \<open>\<^verbatim>\<open>options.remove.split(':').pop()\<close>, or the empty string of the declaration.\<close>

definition removeCondition :: "'a options_scheme \<Rightarrow> string option" where
  "removeCondition options =
     (if truthy (remove options) then pop (split (CHR '':'') (the (remove options)))
      else Some [])"

text \<open>
  \<^verbatim>\<open>(await promisify(cp.exec)('git rev-parse HEAD')).toString().trim()\<close>. The promise
  of the promisified \<^verbatim>\<open>exec\<close> resolves to the object \<^verbatim>\<open>{ stdout, stderr }\<close>, and
  \<^verbatim>\<open>toString\<close> of that object is the one of \<^verbatim>\<open>Object.prototype\<close>.
\<close>

definition object_toString :: "exec_result \<Rightarrow> string" where
  "object_toString r = ''[object Object]''"

definition whitespace :: "char \<Rightarrow> bool" where
  "whitespace c =
     (c \<in> set [CHR 0x09, CHR 0x0A, CHR 0x0B, CHR 0x0C, CHR 0x0D, CHR 0x20, CHR 0xA0])"

definition trim :: "string \<Rightarrow> string" where
  "trim str = rev (dropWhile whitespace (rev (dropWhile whitespace str)))"

definition revision :: "env \<Rightarrow> 'a options_scheme \<Rightarrow> exn + string" where
  "revision env options =
     (if hash options then
        bind (exec env ''git rev-parse HEAD'') (\<lambda>r. Inr (trim (object_toString r)))
      else Inr [])"

text \<open>
  \<^verbatim>\<open>fs.createReadStream(inputFile)\<close> and, at the end of the chain,
  \<^verbatim>\<open>fs.createWriteStream(outputFile)\<close>. Opening a file for writing empties it, and the
  write stream opens its file before the read stream has read: a run whose output file
  is its input file reads an empty file.
\<close>

definition read_input :: "env \<Rightarrow> string \<Rightarrow> string \<Rightarrow> exn + string list" where
  "read_input env input_file output_file =
     (if output_file = input_file then Inr (createReadStream [])
      else bind (readFile env input_file) (\<lambda>content. Inr (createReadStream content)))"

text \<open>
  The run. The write stream writes the chunks it receives one after the other.
  \<open>None\<close> is a run that reaches the fourth stage with a remove condition outside the
  embedding.
\<close>

definition run_mjs :: "env \<Rightarrow> options \<Rightarrow> outcome option" where
  "run_mjs env options =
     (case resolve_input env options of
        Inl out \<Rightarrow> Some out
      | Inr inputFile \<Rightarrow>
     (case resolve_js_mjs env options of
        Inl out \<Rightarrow> Some out
      | Inr jsFiles \<Rightarrow>
     (case resolve_css_mjs env options of
        Inl out \<Rightarrow> Some out
      | Inr cssFiles \<Rightarrow>
     (case revision env options of
        Inl e \<Rightarrow> Some (Uncaught e)
      | Inr revision' \<Rightarrow>
     (case read_input env inputFile (outputFile env options inputFile) of
        Inl e \<Rightarrow> Some (Uncaught e)
      | Inr chunks \<Rightarrow>
          map_option (\<lambda>written. Written (outputFile env options inputFile) (concat written))
            (transform_mjs jsFiles cssFiles revision'
               (template_value (removeCondition options)) chunks))))))"

definition run_cjs :: "env \<Rightarrow> options_cjs \<Rightarrow> outcome option" where
  "run_cjs env options =
     (case resolve_input env options of
        Inl out \<Rightarrow> Some out
      | Inr inputFile \<Rightarrow>
     (case resolve_js_cjs env options of
        Inl out \<Rightarrow> Some out
      | Inr jsFiles \<Rightarrow>
     (case resolve_css_cjs env options of
        Inl out \<Rightarrow> Some out
      | Inr cssFiles \<Rightarrow>
     (case revision env options of
        Inl e \<Rightarrow> Some (Uncaught e)
      | Inr revision' \<Rightarrow>
     (case read_input env inputFile (outputFile env options inputFile) of
        Inl e \<Rightarrow> Some (Uncaught e)
      | Inr chunks \<Rightarrow>
          map_option (\<lambda>written. Written (outputFile env options inputFile) (concat written))
            (transform_cjs jsFiles cssFiles revision'
               (template_value (removeCondition options)) chunks))))))"

subsection \<open>An example environment\<close>

text \<open>
  A working directory \<^verbatim>\<open>/w\<close> with two documents, a directory \<^verbatim>\<open>assets\<close>, a
  script \<^verbatim>\<open>a.js\<close> beside it, and a pipe. The digest shows the text it was taken of.
\<close>

definition example_files :: "(string \<times> string) list" where
  "example_files =
     [(''/w/index.html'',
       ''<head><!-- inject:css -->old<!-- endinject --></head>'' @
       ''<!-- remove:development -->X<!-- endremove -->'' @
       ''<!-- inject:js -->old<!-- endinject -->'' @
       ''<!-- remove:production -->Y<!-- endremove -->'' @
       ''<!-- inject:git-hash -->''),
      (''/w/all.html'',
       ''<head><!-- inject:css -->old<!-- endinject --></head>'' @
       ''<!-- remove: -->B<!-- endremove -->'' @
       ''<!-- inject:js -->old<!-- endinject -->'' @
       ''<!-- remove:production -->Y<!-- endremove -->'' @
       ''<!-- inject:git-hash -->''),
      (''assets/a.js'', ''let a''),
      (''assets/c.js'', ''let c''),
      (''assets/b.css'', ''b {}''),
      (''a.js'', ''let x'')]"

definition example_env :: env where
  "example_env =
     \<lparr>cwd = ''/w'',
      path_join = (\<lambda>dir file. dir @ ''/'' @ file),
      hasMagic = (\<lambda>pattern. list_ex (\<lambda>c. c = CHR ''*'') pattern),
      glob = (\<lambda>pattern. Inr []),
      lstat = (\<lambda>p. if p = ''assets'' then Inr Directory
                   else if p = ''pipe'' then Inr Other
                   else if map_of example_files p \<noteq> None then Inr File
                   else Inl (SystemError ''ENOENT'')),
      readdir = (\<lambda>p. if p = ''assets'' then Inr [''a.js'', ''b.css'', ''c.js'', ''notes.txt'']
                     else Inl (SystemError ''ENOTDIR'')),
      readFile = (\<lambda>p. case map_of example_files p of
                            Some content \<Rightarrow> Inr content
                          | None \<Rightarrow> Inl (SystemError ''ENOENT'')),
      createHash = Inr (\<lambda>content. ''digest of '' @ content),
      exec = (\<lambda>command. Inr \<lparr>stdout = ''9fceb02d0ae598e95dc970b74767f19372d61af8'' @ [CHR 0x0A],
                                stderr = []\<rparr>)\<rparr>"

definition example_options :: options_cjs where
  "example_options =
     \<lparr>inline = False, ignore = None, etag = False,
      input = Some ''index.html'', output' = Some ''out.html'',
      css = None, js = None, remove = None, hash = False,
      async = False, defer' = False\<rparr>"

definition example_options_mjs :: options where
  "example_options_mjs =
     \<lparr>inline = False, ignore = None, etag = False,
      input = Some ''index.html'', output' = Some ''out.html'',
      css = None, js = None, remove = None, hash = False\<rparr>"

section \<open>Properties\<close>

subsection \<open>Finding a marker\<close>

lemma split_at_first_Some:
  "split_at_first m doc = Some (pre, post) \<Longrightarrow> doc = pre @ m @ post"
  by (induction doc arbitrary: pre post) (auto split: if_splits option.splits simp: prefix_def)

lemma split_at_first_None: "split_at_first m doc = None \<longleftrightarrow> \<not> sublist m doc"
  by (induction doc) (auto split: option.splits simp: sublist_Cons_right)

text \<open>No occurrence of the marker starts before the one that is found.\<close>

lemma split_at_first_first:
  "m \<noteq> [] \<Longrightarrow> split_at_first m doc = Some (pre, post) \<Longrightarrow> \<not> sublist m (pre @ butlast m)"
proof (induction doc arbitrary: pre post)
  case Nil
  then show ?case by simp
next
  case (Cons c cs)
  show ?case
  proof (cases "prefix m (c # cs)")
    case True
    with Cons.prems have "pre = []" by simp
    moreover have "\<not> sublist m (butlast m)"
      using Cons.prems(1) by (cases m) (auto dest!: sublist_length_le)
    ultimately show ?thesis by simp
  next
    case False
    with Cons.prems obtain pre' where sp: "split_at_first m cs = Some (pre', post)"
      and pre: "pre = c # pre'"
      by (auto split: option.splits)
    from Cons.IH [OF Cons.prems(1) sp] have ih: "\<not> sublist m (pre' @ butlast m)" .
    have doc: "c # cs = c # pre' @ m @ post" using split_at_first_Some [OF sp] by simp
    have "\<not> prefix m (c # pre' @ butlast m)"
    proof
      assume "prefix m (c # pre' @ butlast m)"
      then have "prefix m ((c # pre' @ butlast m) @ (last m # post))"
        using prefix_prefix by blast
      moreover have "(c # pre' @ butlast m) @ (last m # post) = c # cs"
        using doc Cons.prems(1) by simp
      ultimately show False using False by simp
    qed
    with ih show ?thesis by (simp add: pre sublist_Cons_right)
  qed
qed

lemma split_at_first_append:
  "m \<noteq> [] \<Longrightarrow> \<not> sublist m (pre @ butlast m) \<Longrightarrow>
   split_at_first m (pre @ m @ post) = Some (pre, post)"
proof (induction pre)
  case Nil
  then show ?case by (cases m) auto
next
  case (Cons c pre)
  from Cons.prems(2) have np: "\<not> prefix m (c # pre @ butlast m)"
    and ns: "\<not> sublist m (pre @ butlast m)"
    by (auto simp: sublist_Cons_right)
  have "\<not> prefix m (c # pre @ m @ post)"
  proof
    assume p: "prefix m (c # pre @ m @ post)"
    have "c # pre @ m @ post = (c # pre @ butlast m) @ (last m # post)"
      using Cons.prems(1) by simp
    with p have "prefix m ((c # pre @ butlast m) @ (last m # post))" by simp
    moreover have "length m \<le> length (c # pre @ butlast m)" by simp
    ultimately have "prefix m (c # pre @ butlast m)"
      by (metis prefix_length_prefix prefixI)
    with np show False ..
  qed
  with Cons.IH [OF Cons.prems(1) ns] show ?case by simp
qed

text \<open>
  A marker whose first character occurs nowhere else in it overlaps no copy of
  itself: it starts before the end of a text only if it lies in the text.
\<close>

lemma border_free:
  assumes c: "c \<notin> set m'" and n: "\<not> sublist (c # m') pre"
  shows "\<not> sublist (c # m') (pre @ butlast (c # m'))"
proof
  assume "sublist (c # m') (pre @ butlast (c # m'))"
  then consider "sublist (c # m') pre" | "sublist (c # m') (butlast (c # m'))"
    | m1 m2 where "c # m' = m1 @ m2" "suffix m1 pre" "prefix m2 (butlast (c # m'))"
    unfolding sublist_append by blast
  then show False
  proof cases
    case 1
    with n show ?thesis ..
  next
    case 2
    then show ?thesis by (auto dest!: sublist_length_le simp del: butlast.simps)
  next
    case 3
    show ?thesis
    proof (cases m1)
      case Nil
      with 3 have "prefix (c # m') (butlast (c # m'))" by simp
      then show ?thesis by (auto dest!: prefix_length_le simp del: butlast.simps)
    next
      case (Cons a m1')
      with 3 have m': "m' = m1' @ m2" by simp
      show ?thesis
      proof (cases m2)
        case Nil
        with 3 n show ?thesis by auto
      next
        case (Cons b m2')
        with 3(3) have "m' \<noteq> []" "b = c" by (auto split: if_splits)
        with m' Cons c show ?thesis by auto
      qed
    qed
  qed
qed

lemma split_at_first_Nil: "split_at_first [] h = Some ([], h)"
  by (cases h) simp_all

lemma split_at_first_extend:
  "split_at_first m h = Some (pre, r) \<Longrightarrow> split_at_first m (h @ t) = Some (pre, r @ t)"
proof (cases "m = []")
  case True
  then show "split_at_first m h = Some (pre, r) \<Longrightarrow> ?thesis"
    by (simp add: split_at_first_Nil)
next
  case False
  assume sp: "split_at_first m h = Some (pre, r)"
  from split_at_first_append [OF False split_at_first_first [OF False sp], of "r @ t"]
    split_at_first_Some [OF sp]
  show ?thesis by simp
qed

lemma sublist_suffix_append:
  "\<not> sublist m (pre @ x) \<Longrightarrow> \<not> sublist m (drop k pre @ x)"
proof
  assume n: "\<not> sublist m (pre @ x)" and s: "sublist m (drop k pre @ x)"
  have "pre @ x = take k pre @ (drop k pre @ x)" by simp
  then have "sublist (drop k pre @ x) (pre @ x)" by (metis sublist_append_leftI)
  with s have "sublist m (pre @ x)" by (metis sublist_order.dual_order.trans)
  with n show False ..
qed

lemma split_at_first_drop:
  assumes "m \<noteq> []" "split_at_first m h = Some (pre, r)" "k \<le> length pre"
  shows "split_at_first m (drop k h) = Some (drop k pre, r)"
proof -
  have "drop k h = drop k pre @ m @ r"
    using split_at_first_Some [OF assms(2)] assms(3) by simp
  moreover have "\<not> sublist m (drop k pre @ butlast m)"
    using split_at_first_first [OF assms(1,2)] by (rule sublist_suffix_append)
  ultimately show ?thesis
    using split_at_first_append [OF assms(1), of "drop k pre" r] by simp
qed

lemma split_at_first_None_drop:
  "split_at_first m h = None \<Longrightarrow> split_at_first m (drop k h) = None"
  unfolding split_at_first_None
  using sublist_suffix_append [of m h "[]" k] by simp

lemma split_at_first_restrict:
  assumes "split_at_first m (x @ t) = Some (pre, r)" "length pre + length m \<le> length x"
  shows "\<exists>r0. split_at_first m x = Some (pre, r0) \<and> r = r0 @ t"
proof (cases "m = []")
  case True
  with assms show ?thesis by (simp add: split_at_first_Nil)
next
  case False
  let ?r0 = "drop (length pre + length m) x"
  have eq: "x @ t = pre @ m @ r" by (rule split_at_first_Some [OF assms(1)])
  then have "take (length pre + length m) (x @ t) = pre @ m" by simp
  with assms(2) have "take (length pre + length m) x = pre @ m" by simp
  then have x: "x = pre @ m @ ?r0"
    by (metis append_assoc append_take_drop_id)
  with eq have "pre @ m @ ?r0 @ t = pre @ m @ r" by (metis append_assoc)
  then have r: "r = ?r0 @ t" by simp
  have "split_at_first m (pre @ m @ ?r0) = Some (pre, ?r0)"
    by (rule split_at_first_append [OF False split_at_first_first [OF False assms(1)]])
  with x r show ?thesis by metis
qed

text \<open>The occurrence that is found is not behind any other.\<close>

lemma split_at_first_least:
  "m \<noteq> [] \<Longrightarrow> split_at_first m (u @ m @ v) = Some (pre, r) \<Longrightarrow> length pre \<le> length u"
proof (induction u arbitrary: pre)
  case Nil
  then show ?case by (cases m) auto
next
  case (Cons c u)
  show ?case
  proof (cases "prefix m (c # u @ m @ v)")
    case True
    with Cons.prems show ?thesis by simp
  next
    case False
    with Cons.prems obtain pre' where "split_at_first m (u @ m @ v) = Some (pre', r)"
      "pre = c # pre'"
      by (auto split: option.splits)
    with Cons.IH [OF Cons.prems(1)] show ?thesis by simp
  qed
qed

subsection \<open>The region expression\<close>

text \<open>
  What the expression of a region finds in a text, and how that changes when text is
  added behind or dropped in front.
\<close>

lemma region_Some:
  assumes "regexp_region s e h = Some (b, m, a)"
  shows "h = b @ m @ a" and "\<exists>mid. m = s @ mid @ e"
proof -
  from assms obtain r mid where 1: "split_at_first s h = Some (b, r)"
    and 2: "split_at_first e r = Some (mid, a)" and m: "m = s @ mid @ e"
    by (auto simp: regexp_region_def split: option.splits)
  from split_at_first_Some [OF 1] split_at_first_Some [OF 2] m
  show "h = b @ m @ a" by simp
  from m show "\<exists>mid. m = s @ mid @ e" by blast
qed

lemma region_shorter:
  "s \<noteq> [] \<Longrightarrow> regexp_region s e h = Some (b, m, a) \<Longrightarrow> length a < length h"
  using region_Some [of s e h b m a] by (cases s) auto

lemma region_Nil: "s \<noteq> [] \<Longrightarrow> regexp_region s e [] = None"
  by (simp add: regexp_region_def)

lemma region_cases:
  assumes "regexp_region s e h = Some (b, m, a)"
  obtains r mid where "split_at_first s h = Some (b, r)" "split_at_first e r = Some (mid, a)"
    "m = s @ mid @ e"
  using assms by (auto simp: regexp_region_def split: option.splits)

lemma region_extend:
  assumes "regexp_region s e h = Some (b, m, a)"
  shows "regexp_region s e (h @ t) = Some (b, m, a @ t)"
proof -
  from assms obtain r mid where 1: "split_at_first s h = Some (b, r)"
    and 2: "split_at_first e r = Some (mid, a)" and m: "m = s @ mid @ e"
    by (rule region_cases)
  from split_at_first_extend [OF 1, of t] split_at_first_extend [OF 2, of t] m
  show ?thesis by (simp add: regexp_region_def)
qed

lemma region_drop:
  assumes "s \<noteq> []" "regexp_region s e h = Some (b, m, a)" "k \<le> length b"
  shows "regexp_region s e (drop k h) = Some (drop k b, m, a)"
proof -
  from assms(2) obtain r mid where 1: "split_at_first s h = Some (b, r)"
    and 2: "split_at_first e r = Some (mid, a)" and m: "m = s @ mid @ e"
    by (rule region_cases)
  from split_at_first_drop [OF assms(1) 1 assms(3)] 2 m
  show ?thesis by (simp add: regexp_region_def)
qed

lemma same_text_later:
  assumes "u @ s @ r' = h" "pre @ s @ r = h" "length pre \<le> length u"
  shows "r' = drop (length u - length pre) r"
proof -
  have "drop (length u + length s) (u @ s @ r') = r'" by simp
  moreover have "drop (length pre + length s + (length u - length pre)) (pre @ s @ r) =
      drop (length u - length pre) r"
    by simp
  moreover have "length pre + length s + (length u - length pre) = length u + length s"
    using assms(3) by simp
  ultimately show ?thesis using assms(1,2) by metis
qed

lemma region_None_drop:
  assumes s: "s \<noteq> []" and n: "regexp_region s e h = None"
  shows "regexp_region s e (drop k h) = None"
proof (cases "split_at_first s h")
  case None
  then show ?thesis
    by (simp add: regexp_region_def split_at_first_None_drop)
next
  case (Some p)
  obtain pre r where p: "p = (pre, r)" by (cases p)
  with Some n have e: "split_at_first e r = None"
    by (auto simp: regexp_region_def split: option.splits)
  show ?thesis
  proof (cases "split_at_first s (drop k h)")
    case None
    then show ?thesis by (simp add: regexp_region_def)
  next
    case (Some q)
    obtain pre' r' where q: "q = (pre', r')" by (cases q)
    with Some have d: "drop k h = pre' @ s @ r'" by (auto dest: split_at_first_Some)
    let ?u = "take k h @ pre'"
    have "h = take k h @ drop k h" by simp
    with d have h: "h = ?u @ s @ r'" by simp
    from \<open>split_at_first s h = Some p\<close> p have "split_at_first s h = Some (pre, r)" by simp
    with h have sp: "split_at_first s (?u @ s @ r') = Some (pre, r)" by simp
    from split_at_first_least [OF s sp] have le: "length pre \<le> length ?u" .
    from \<open>split_at_first s h = Some p\<close> p have h': "h = pre @ s @ r"
      by (auto dest: split_at_first_Some)
    have "r' = drop (length ?u - length pre) r"
      by (rule same_text_later [OF h [symmetric] h' [symmetric] le])
    then have "split_at_first e r' = None"
      using e by (simp add: split_at_first_None_drop)
    with Some q show ?thesis by (simp add: regexp_region_def)
  qed
qed

lemma region_restrict:
  assumes "regexp_region s e (x @ t) = Some (b, m, a)" "length b + length m \<le> length x"
  shows "regexp_region s e x \<noteq> None"
proof -
  from assms(1) obtain r mid where 1: "split_at_first s (x @ t) = Some (b, r)"
    and 2: "split_at_first e r = Some (mid, a)" and m: "m = s @ mid @ e"
    by (auto simp: regexp_region_def split: option.splits)
  from assms(2) m have "length b + length s \<le> length x" by simp
  from split_at_first_restrict [OF 1 this] obtain r0 where
    3: "split_at_first s x = Some (b, r0)" and r: "r = r0 @ t" by blast
  from split_at_first_Some [OF 3] have "length x = length b + length s + length r0" by simp
  with assms(2) m have "length mid + length e \<le> length r0" by simp
  from split_at_first_restrict [OF 2 [unfolded r] this] obtain a0 where
    "split_at_first e r0 = Some (mid, a0)" by blast
  with 3 show ?thesis by (simp add: regexp_region_def)
qed

subsection \<open>One pass over a text\<close>

lemma exec_all_None: "re h = None \<Longrightarrow> exec_all re f h = ([], h)"
  by (subst exec_all.simps) simp

lemma exec_all_Some:
  "re h = Some (b, m, a) \<Longrightarrow> length a < length h \<Longrightarrow>
   exec_all re f h = (b @ f m @ fst (exec_all re f a), snd (exec_all re f a))"
  by (subst exec_all.simps) (simp add: case_prod_beta)

lemma matches_within_None: "re h = None \<Longrightarrow> matches_within n re h"
  by (subst matches_within.simps) simp

lemma matches_within_Some:
  "re h = Some (b, m, a) \<Longrightarrow> length a < length h \<Longrightarrow>
   matches_within n re h \<longleftrightarrow> length m \<le> n \<and> matches_within n re a"
  by (subst matches_within.simps) simp

lemma replace_buffered_None: "re h = None \<Longrightarrow> replace_buffered re f h = h"
  by (simp add: replace_buffered_def exec_all_None)

lemma replace_buffered_Some:
  "re h = Some (b, m, a) \<Longrightarrow> length a < length h \<Longrightarrow>
   replace_buffered re f h = b @ f m @ replace_buffered re f a"
  by (simp add: replace_buffered_def exec_all_Some case_prod_beta)

text \<open>Behind the last match the loop finds nothing.\<close>

lemma exec_all_rest:
  assumes s: "s \<noteq> []"
  shows "regexp_region s e (snd (exec_all (regexp_region s e) f h)) = None"
proof (induction h rule: length_induct)
  case (1 h)
  show ?case
  proof (cases "regexp_region s e h")
    case None
    then show ?thesis by (simp add: exec_all_None)
  next
    case (Some p)
    obtain b m a where p: "p = (b, m, a)" by (cases p)
    with Some have r: "regexp_region s e h = Some (b, m, a)" by simp
    from region_shorter [OF s r] have l: "length a < length h" .
    with 1 have "regexp_region s e (snd (exec_all (regexp_region s e) f a)) = None" by blast
    then show ?thesis by (simp add: exec_all_Some [where re = "regexp_region s e", OF r l])
  qed
qed

text \<open>
  The matches that the loop finds in a text are the first matches of every longer
  text: the pass over the longer text goes on from the rest.
\<close>

lemma exec_all_extend:
  assumes s: "s \<noteq> []"
  shows "replace_buffered (regexp_region s e) f (h @ t) =
      fst (exec_all (regexp_region s e) f h) @
      replace_buffered (regexp_region s e) f (snd (exec_all (regexp_region s e) f h) @ t) \<and>
    (matches_within n (regexp_region s e) (h @ t) \<longrightarrow>
      matches_within n (regexp_region s e) (snd (exec_all (regexp_region s e) f h) @ t))"
proof (induction h rule: length_induct)
  case (1 h)
  let ?re = "regexp_region s e"
  show ?case
  proof (cases "?re h")
    case None
    then show ?thesis by (simp add: exec_all_None)
  next
    case (Some p)
    obtain b m a where p: "p = (b, m, a)" by (cases p)
    with Some have r: "?re h = Some (b, m, a)" by simp
    from region_shorter [OF s r] have l: "length a < length h" .
    from region_extend [OF r, of t] have rt: "?re (h @ t) = Some (b, m, a @ t)" .
    from l have lt: "length (a @ t) < length (h @ t)" by simp
    from 1 l have ih: "replace_buffered ?re f (a @ t) =
      fst (exec_all ?re f a) @ replace_buffered ?re f (snd (exec_all ?re f a) @ t) \<and>
      (matches_within n ?re (a @ t) \<longrightarrow> matches_within n ?re (snd (exec_all ?re f a) @ t))"
      by blast
    show ?thesis
      using ih
      by (simp add: replace_buffered_Some [where re = "regexp_region s e", OF rt lt] matches_within_Some [where re = "regexp_region s e", OF rt lt]
          exec_all_Some [where re = "regexp_region s e", OF r l])
  qed
qed

text \<open>
  Where the rest holds no match and every match is at most \<open>n\<close> long, a match of the
  rest and the text that follows starts in the last \<open>n\<close> characters of the rest or
  behind it: what is before them can go out.
\<close>

lemma tail_keeps_match:
  assumes s: "s \<noteq> []" and none: "regexp_region s e rest = None"
    and w: "matches_within n (regexp_region s e) (rest @ t)"
  shows "replace_buffered (regexp_region s e) f (rest @ t) =
      take (length rest - n) rest @
      replace_buffered (regexp_region s e) f (drop (length rest - n) rest @ t) \<and>
    matches_within n (regexp_region s e) (drop (length rest - n) rest @ t)"
proof -
  let ?re = "regexp_region s e"
  let ?k = "length rest - n"
  have d: "drop ?k (rest @ t) = drop ?k rest @ t" by simp
  show ?thesis
  proof (cases "?re (rest @ t)")
    case None
    from region_None_drop [OF s None, of ?k] have "?re (drop ?k rest @ t) = None"
      by (simp only: d)
    with None show ?thesis
      by (simp add: replace_buffered_None matches_within_None)
  next
    case (Some p)
    obtain b m a where p: "p = (b, m, a)" by (cases p)
    with Some have r: "?re (rest @ t) = Some (b, m, a)" by simp
    from region_shorter [OF s r] have l: "length a < length (rest @ t)" .
    from w have m: "length m \<le> n" and wa: "matches_within n ?re a"
      by (simp_all add: matches_within_Some [where re = "regexp_region s e", OF r l])
    have "\<not> length b + length m \<le> length rest"
      using region_restrict [OF r] none by blast
    with m have k: "?k \<le> length b" by simp
    from region_drop [OF s r k] have rd: "?re (drop ?k rest @ t) = Some (drop ?k b, m, a)"
      by (simp only: d)
    from region_shorter [OF s rd] have ld: "length a < length (drop ?k rest @ t)" .
    from region_Some(1) [OF r] have "take ?k (rest @ t) = take ?k (b @ m @ a)" by simp
    with k have "take ?k rest = take ?k b" by simp
    then have b: "b = take ?k rest @ drop ?k b" by (metis append_take_drop_id)
    have "replace_buffered ?re f (rest @ t) = b @ f m @ replace_buffered ?re f a"
      by (rule replace_buffered_Some [where re = "regexp_region s e", OF r l])
    also have "\<dots> = take ?k rest @ drop ?k b @ f m @ replace_buffered ?re f a"
      by (subst b) simp
    also have "drop ?k b @ f m @ replace_buffered ?re f a =
        replace_buffered ?re f (drop ?k rest @ t)"
      by (rule replace_buffered_Some [where re = "regexp_region s e", OF rd ld, symmetric])
    finally have "replace_buffered ?re f (rest @ t) =
        take ?k rest @ replace_buffered ?re f (drop ?k rest @ t)" .
    moreover have "matches_within n ?re (drop ?k rest @ t)"
      using m wa by (simp add: matches_within_Some [where re = "regexp_region s e", OF rd ld])
    ultimately show ?thesis ..
  qed
qed

subsection \<open>The replace stream\<close>

lemma transform_chunk_eq:
  "transform_chunk re f tail buf =
     (fst (exec_all re f (tail @ buf)) @
        take (length (snd (exec_all re f (tail @ buf))) - maxMatchLen)
          (snd (exec_all re f (tail @ buf))),
      drop (length (snd (exec_all re f (tail @ buf))) - maxMatchLen)
        (snd (exec_all re f (tail @ buf))))"
  by (cases "exec_all re f (tail @ buf)") (simp add: transform_chunk_def Let_def)

lemma concat_push: "concat (push c cs) = c @ concat cs"
  by simp

text \<open>
  The stream and the pass over the whole text: they give the same text, however the
  text is cut into chunks, when no match is longer than the tail that is kept.
\<close>

lemma stream_from_buffered:
  assumes s: "s \<noteq> []"
  shows "regexp_region s e tail = None \<Longrightarrow>
    matches_within maxMatchLen (regexp_region s e) (tail @ concat bufs) \<Longrightarrow>
    concat (replaceStream_from (regexp_region s e) f tail bufs) =
    replace_buffered (regexp_region s e) f (tail @ concat bufs)"
proof (induction bufs arbitrary: tail)
  case Nil
  then show ?case by (simp add: replace_buffered_None)
next
  case (Cons buf bufs)
  let ?re = "regexp_region s e"
  let ?rw = "fst (exec_all ?re f (tail @ buf))"
  let ?rest = "snd (exec_all ?re f (tail @ buf))"
  let ?k = "length ?rest - maxMatchLen"
  have none: "?re ?rest = None" by (rule exec_all_rest [OF s])
  from exec_all_extend [OF s, of e f "tail @ buf" "concat bufs" maxMatchLen] Cons.prems(2)
  have ext: "replace_buffered ?re f (tail @ buf @ concat bufs) =
      ?rw @ replace_buffered ?re f (?rest @ concat bufs)"
    and w: "matches_within maxMatchLen ?re (?rest @ concat bufs)"
    by simp_all
  from tail_keeps_match [OF s none w, of f]
  have keep: "replace_buffered ?re f (?rest @ concat bufs) =
      take ?k ?rest @ replace_buffered ?re f (drop ?k ?rest @ concat bufs)"
    and w': "matches_within maxMatchLen ?re (drop ?k ?rest @ concat bufs)"
    by simp_all
  have none': "?re (drop ?k ?rest) = None" by (rule region_None_drop [OF s none])
  from Cons.IH [OF none' w']
  have ih: "concat (replaceStream_from ?re f (drop ?k ?rest) bufs) =
      replace_buffered ?re f (drop ?k ?rest @ concat bufs)" .
  have "concat (replaceStream_from ?re f tail (buf # bufs)) =
      (?rw @ take ?k ?rest) @ concat (replaceStream_from ?re f (drop ?k ?rest) bufs)"
    by (simp only: replaceStream_from.simps transform_chunk_eq prod.case concat_push)
  also have "\<dots> = ?rw @ take ?k ?rest @ replace_buffered ?re f (drop ?k ?rest @ concat bufs)"
    by (simp only: ih append_assoc)
  also have "\<dots> = ?rw @ replace_buffered ?re f (?rest @ concat bufs)"
    by (simp only: keep)
  also have "\<dots> = replace_buffered ?re f (tail @ buf @ concat bufs)"
    by (simp only: ext)
  finally show ?case by simp
qed

lemma stream_buffered:
  "s \<noteq> [] \<Longrightarrow> matches_within maxMatchLen (regexp_region s e) (concat bufs) \<Longrightarrow>
   concat (replaceStream (regexp_region s e) f bufs) =
   replace_buffered (regexp_region s e) f (concat bufs)"
  using stream_from_buffered [of s e "[]" bufs f]
  by (simp add: replaceStream_def region_Nil)







text \<open>The expression of one literal is the region expression with no end marker.\<close>

lemma regexp_literal_region: "regexp_literal m = regexp_region m []"
  by (rule ext) (simp add: regexp_literal_def regexp_region_def split_at_first_Nil
      split: option.splits)

lemma matches_within_literal:
  assumes "m \<noteq> []" "length m \<le> n"
  shows "matches_within n (regexp_literal m) h"
proof (induction h rule: length_induct)
  case (1 h)
  show ?case
  proof (cases "regexp_literal m h")
    case None
    then show ?thesis by (rule matches_within_None)
  next
    case (Some p)
    obtain b m' a where p: "p = (b, m', a)" by (cases p)
    with Some have r: "regexp_literal m h = Some (b, m', a)" by simp
    then have m': "m' = m" and h: "h = b @ m @ a"
      by (auto simp: regexp_literal_def split: option.splits dest: split_at_first_Some)
    with assms(1) have l: "length a < length h" by (cases m) simp_all
    with 1 have "matches_within n (regexp_literal m) a" by blast
    with assms(2) m' show ?thesis
      by (simp add: matches_within_Some [where re = "regexp_literal m", OF r l])
  qed
qed

lemma stream_literal:
  assumes "m \<noteq> []" "length m \<le> maxMatchLen"
  shows "concat (replaceStream (regexp_literal m) f bufs) =
    replace_buffered (regexp_literal m) f (concat bufs)"
  using stream_buffered [OF assms(1), of "[]" bufs f] matches_within_literal [OF assms]
  by (simp add: regexp_literal_region)

subsection \<open>The first region\<close>




lemma literal_first:
  assumes "m \<noteq> []" "\<not> sublist m (pre @ butlast m)"
  shows "replace_buffered (regexp_literal m) f (pre @ m @ post) =
      pre @ f m @ replace_buffered (regexp_literal m) f post"
proof -
  have r: "regexp_literal m (pre @ m @ post) = Some (pre, m, post)"
    using split_at_first_append [OF assms, of post] by (simp add: regexp_literal_def)
  from assms(1) have l: "length post < length (pre @ m @ post)" by (cases m) simp_all
  show ?thesis by (rule replace_buffered_Some [where re = "regexp_literal m", OF r l])
qed

lemma literal_none: "\<not> sublist m h \<Longrightarrow> replace_buffered (regexp_literal m) f h = h"
  by (rule replace_buffered_None)
     (simp add: regexp_literal_def split_at_first_None [THEN iffD2])

text \<open>
  A document cut at every occurrence of a marker without overlap is the pieces joined
  by the marker; replacing the marker joins the same pieces by the replacement.
\<close>

lemma literal_join:
  "c \<notin> set m' \<Longrightarrow> \<forall>p\<in>set ps. \<not> sublist (c # m') p \<Longrightarrow>
   replace_buffered (regexp_literal (c # m')) (\<lambda>m. r) (join (c # m') ps) = join r ps"
proof (induction "c # m'" ps rule: join.induct)
  case 1
  then show ?case by (simp add: literal_none)
next
  case (2 x)
  then show ?case by (simp add: literal_none)
next
  case (3 x y ys)
  from 3 have "\<not> sublist (c # m') (x @ butlast (c # m'))"
    by (intro border_free) auto
  with 3 show ?case
    using literal_first [of "c # m'" x "\<lambda>m. r" "join (c # m') (y # ys)"] by simp
qed

subsection \<open>The read stream\<close>




subsection \<open>The markers\<close>




subsection \<open>The inject stages\<close>




subsection \<open>The git-hash stage\<close>

text \<open>
  The marker is 24 characters long, so the stream finds every occurrence of it,
  however the document is cut into chunks.
\<close>

lemma git_hash_join:
  assumes "\<forall>p\<in>set ps. \<not> sublist ''<!-- inject:git-hash -->'' p"
    and "concat chunks = join ''<!-- inject:git-hash -->'' ps"
  shows "concat (inject_git_hash r chunks) = join (''<!-- '' @ r @ '' -->'') ps"
proof -
  have "concat (inject_git_hash r chunks) =
      replace_buffered (regexp_literal ''<!-- inject:git-hash -->'')
        (\<lambda>m. ''<!-- '' @ r @ '' -->'') (concat chunks)"
    unfolding inject_git_hash_def by (rule stream_literal) (simp_all add: maxMatchLen_def)
  also have "\<dots> = join (''<!-- '' @ r @ '' -->'') ps"
    unfolding assms(2) using assms(1) by (intro literal_join) simp_all
  finally show ?thesis .
qed

text \<open>
  Every document is a list of pieces without the marker, joined by the marker: the
  pieces are the text between its occurrences.
\<close>

lemma pieces_exist:
  assumes "m \<noteq> []"
  shows "\<exists>ps. ps \<noteq> [] \<and> doc = join m ps \<and> (\<forall>p\<in>set ps. \<not> sublist m p)"
proof (induction doc rule: length_induct)
  case (1 doc)
  show ?case
  proof (cases "split_at_first m doc")
    case None
    then have "\<not> sublist m doc" by (simp add: split_at_first_None)
    then show ?thesis by (intro exI [of _ "[doc]"]) simp
  next
    case (Some a)
    obtain pre post where a: "a = (pre, post)" by (cases a)
    from Some a have sp: "split_at_first m doc = Some (pre, post)" by simp
    have doc: "doc = pre @ m @ post" by (rule split_at_first_Some [OF sp])
    with assms have "length post < length doc" by simp
    with 1 obtain ps where ps: "ps \<noteq> []" "post = join m ps" "\<forall>p\<in>set ps. \<not> sublist m p"
      by blast
    have "\<not> sublist m pre"
      using split_at_first_first [OF assms sp] by (auto simp: sublist_append)
    moreover have "join m (pre # ps) = pre @ m @ join m ps"
      using ps(1) by (cases ps) simp_all
    ultimately show ?thesis
      using ps doc by (intro exI [of _ "pre # ps"]) simp
  qed
qed

text \<open>
  C3, as amended. The third stage replaces every occurrence of
  \<^verbatim>\<open><!-- inject:git-hash -->\<close> by the comment \<^verbatim>\<open><!-- \<close>revision\<^verbatim>\<open> -->\<close> and keeps the
  text between the occurrences, for a revision without \<^verbatim>\<open>$\<close> and for every way the
  document reaches the stage in chunks. Without \<^verbatim>\<open>--hash\<close> the revision is the empty
  string, and the comment is then \<^verbatim>\<open><!--  -->\<close> with the two spaces of the template and
  nothing between them.
\<close>

theorem git_hash_stage:
  "(CHR ''$'' \<notin> set r \<and> (\<forall>p\<in>set ps. \<not> sublist ''<!-- inject:git-hash -->'' p) \<and>
    concat chunks = join ''<!-- inject:git-hash -->'' ps \<longrightarrow>
      concat (inject_git_hash r chunks) = join (''<!-- '' @ r @ '' -->'') ps) \<and>
   (\<not> hash options \<longrightarrow> revision env options = Inr []) \<and>
   ((\<forall>p\<in>set ps. \<not> sublist ''<!-- inject:git-hash -->'' p) \<and>
    concat chunks = join ''<!-- inject:git-hash -->'' ps \<longrightarrow>
      concat (inject_git_hash [] chunks) = join ''<!--  -->'' ps)"
  using git_hash_join [of ps chunks r] git_hash_join [of ps chunks "[]"]
  by (simp add: revision_def)

theorem git_hash_stage_witness:
  "concat (inject_git_hash ''[object Object]''
      [''a<!-- inject:gi'', ''t-hash -->b<!-- inject:git-hash -->'']) =
     ''a<!-- [object Object] -->b<!-- [object Object] -->'' \<and>
   revision example_env example_options = Inr [] \<and>
   concat (inject_git_hash [] [''a<!-- inject:gi'', ''t-hash -->b<!-- inject:git-hash -->'']) =
     ''a<!--  -->b<!--  -->''"
proof -
  have n: "\<forall>p\<in>set [''a'', ''b'', []]. \<not> sublist ''<!-- inject:git-hash -->'' p"
    by (simp add: sublist_code)
  have h: "\<not> hash example_options" by (simp add: example_options_def)
  show ?thesis
    using git_hash_stage [of "''[object Object]''" "[''a'', ''b'', []]"
        "[''a<!-- inject:gi'', ''t-hash -->b<!-- inject:git-hash -->'']"
        example_options example_env] n h
    by simp
qed

text \<open>
  C3 as it was stated: without \<^verbatim>\<open>--hash\<close> the marker would become \<^verbatim>\<open><!-- -->\<close> with one
  space. The pipeline writes two.
\<close>

theorem git_hash_empty_revision_counterexample:
  "revision example_env example_options = Inr [] \<and>
   map_option concat
     (transform_cjs [] [] [] [] (createReadStream ''<!-- inject:git-hash -->'')) =
     Some ''<!--  -->'' \<and>
   map_option concat
     (transform_cjs [] [] [] [] (createReadStream ''<!-- inject:git-hash -->'')) \<noteq>
     Some ''<!-- -->''"
  by (simp add: revision_def example_options_def transform_cjs_def remove_stage_def
      inject_git_hash_def inject_css_def inject_js_def syntax_character_def
      createReadStream.simps highWaterMark_def replaceStream_def transform_chunk_def
      exec_all.simps regexp_region_def regexp_literal_def maxMatchLen_def)

subsection \<open>The pattern resolver\<close>

text \<open>\<^verbatim>\<open>endsWith\<close> is the literal suffix test.\<close>

lemma endsWith_suffix: "endsWith str s \<longleftrightarrow> suffix s str"
proof
  assume "endsWith str s"
  then have "drop (length str - length s) str = s" by (simp add: endsWith_def)
  then show "suffix s str" by (metis suffix_drop)
next
  assume "suffix s str"
  then obtain ys where "str = ys @ s" by (auto simp: suffix_def)
  then show "endsWith str s" by (simp add: endsWith_def)
qed

text \<open>
  C4. For a pattern without glob magic the resolver returns, when \<^verbatim>\<open>lstat\<close> says
  directory, the names \<^verbatim>\<open>readdir\<close> lists for that directory (its own entries, no
  deeper ones) that have the extension as a literal suffix, each joined to the pattern
  by \<^verbatim>\<open>path.join\<close> and in the listed order; when it says regular file, the pattern
  alone and unchanged; for anything else that \<^verbatim>\<open>lstat\<close> answers, the empty list.
\<close>

theorem patternToFileNames_not_glob:
  "\<not> hasMagic env pattern \<longrightarrow>
     (lstat env pattern = Inr Directory \<and> readdir env pattern = Inr names \<longrightarrow>
        patternToFileNames env pattern extension =
        Inr (map (\<lambda>file. path_join env pattern file) (filter (\<lambda>file. suffix extension file) names))) \<and>
     (lstat env pattern = Inr File \<longrightarrow> patternToFileNames env pattern extension = Inr [pattern]) \<and>
     (lstat env pattern = Inr Other \<longrightarrow> patternToFileNames env pattern extension = Inr [])"
  by (simp add: patternToFileNames_def endsWith_suffix)

lemma example_lstat:
  "lstat example_env ''assets'' = Inr Directory"
  "lstat example_env ''a.js'' = Inr File"
  "lstat example_env ''pipe'' = Inr Other"
  "readdir example_env ''assets'' = Inr [''a.js'', ''b.css'', ''c.js'', ''notes.txt'']"
  "\<not> hasMagic example_env ''assets''"
  "\<not> hasMagic example_env ''a.js''"
  "\<not> hasMagic example_env ''pipe''"
  by (simp_all add: example_env_def example_files_def)

theorem patternToFileNames_not_glob_witness:
  "patternToFileNames example_env ''assets'' ''.js'' = Inr [''assets/a.js'', ''assets/c.js''] \<and>
   patternToFileNames example_env ''a.js'' ''.js'' = Inr [''a.js''] \<and>
   patternToFileNames example_env ''pipe'' ''.js'' = Inr []"
proof -
  have j: "path_join example_env ''assets'' = (\<lambda>file. ''assets/'' @ file)"
    by (simp add: example_env_def)
  show ?thesis
    using patternToFileNames_not_glob [of example_env "''assets''"
        "[''a.js'', ''b.css'', ''c.js'', ''notes.txt'']" "''.js''"]
      patternToFileNames_not_glob [of example_env "''a.js''" "[]" "''.js''"]
      patternToFileNames_not_glob [of example_env "''pipe''" "[]" "''.js''"]
    by (simp add: example_lstat j suffix_to_prefix)
qed

subsection \<open>The tag generator\<close>

lemma for_of_total: "for_of (\<lambda>x. Inr (g x)) xs = Inr (map g xs)"
  by (induction xs) simp_all

lemma for_of_all2: "for_of body xs = Inr ys \<Longrightarrow> list_all2 (\<lambda>x y. body x = Inr y) xs ys"
  by (induction xs arbitrary: ys) (auto split: sum.splits)

lemma for_of_form:
  "for_of body xs = Inr ys \<Longrightarrow> (\<And>x y. body x = Inr y \<Longrightarrow> P x y) \<Longrightarrow> list_all2 P xs ys"
  by (induction xs arbitrary: ys) (auto split: sum.splits)

lemma list_all2_range:
  "list_all2 P xs ys \<Longrightarrow> (\<And>x y. P x y \<Longrightarrow> Q y) \<Longrightarrow> \<forall>y\<in>set ys. Q y"
  by (induction rule: list_all2_induct) auto

lemma appendETag_form:
  "appendETagSHAToFilename env filename = Inr p \<Longrightarrow> \<exists>d. p = filename @ ''?etag='' @ d"
  by (cases "createHash env"; cases "readFile env filename")
     (auto simp: appendETagSHAToFilename_def)

lemma script_tag_cjs_form:
  \<open>''<script '' @ join '' '' (attributes_cjs opts path) @ ''></script>'' =
   ''<script src="'' @ path @ ''"'' @
     (if async opts then '' async'' else if defer' opts then '' defer'' else []) @ ''></script>''\<close>
  by (simp add: attributes_cjs_def)

lemma appendETag_exact:
  "appendETagSHAToFilename env filename = Inr p \<Longrightarrow>
   \<exists>sha content. createHash env = Inr sha \<and> readFile env filename = Inr content \<and>
     p = filename @ ''?etag='' @ sha content"
  by (cases "createHash env"; cases "readFile env filename")
     (auto simp: appendETagSHAToFilename_def)

text \<open>
  C5. In linked mode with an ignore prefix, the path that a tag carries for a resolved
  file is the file's path without its first \<open>length ig\<close> characters, whether or not
  the path starts with the prefix: the tags are the script and link tags of the sliced
  paths, one per file and in order. With \<^verbatim>\<open>--etag\<close> the sliced path is followed by
  \<^verbatim>\<open>?etag=\<close> and a digest. This holds for the script and the style tags of both
  files.
\<close>

theorem ignore_slice:
  fixes opts :: "'a render_options_scheme" and copts :: "'b options_cjs_scheme"
  shows
  \<open>((\<not> inline opts \<and> ignore opts = Some ig \<and> \<not> etag opts \<longrightarrow>
      (patternToFileNames env pattern ''.js'' = Inr files \<longrightarrow>
         filePatternToScriptTags_mjs env pattern opts =
         Inr (map (\<lambda>f. ''<script src="'' @ drop (length ig) f @ ''"></script>'') files)) \<and>
      (patternToFileNames env pattern ''.css'' = Inr files \<longrightarrow>
         filePatternToStyleTags_mjs env pattern opts =
         Inr (map (\<lambda>f. ''<link rel="stylesheet" href="'' @ drop (length ig) f @ ''">'') files) \<and>
         filePatternToStyleTags_cjs env pattern opts =
         Inr (map (\<lambda>f. ''<link rel="stylesheet" href="'' @ drop (length ig) f @ ''">'') files))) \<and>
   (\<not> inline copts \<and> ignore copts = Some ig \<and> \<not> etag copts \<and>
    patternToFileNames env pattern ''.js'' = Inr files \<longrightarrow>
      filePatternToScriptTags_cjs env pattern copts =
      Inr (map (\<lambda>f. ''<script src="'' @ drop (length ig) f @ ''"'' @
                 (if async copts then '' async'' else if defer' copts then '' defer'' else []) @
                 ''></script>'') files))) \<and>
   (\<not> inline opts \<and> ignore opts = Some ig \<and> etag opts \<longrightarrow>
      (patternToFileNames env pattern ''.js'' = Inr files \<and>
       filePatternToScriptTags_mjs env pattern opts = Inr tags \<longrightarrow>
         list_all2 (\<lambda>f tag. \<exists>d. tag =
           ''<script src="'' @ drop (length ig) f @ ''?etag='' @ d @ ''"></script>'') files tags) \<and>
      (patternToFileNames env pattern ''.css'' = Inr files \<and>
       (filePatternToStyleTags_mjs env pattern opts = Inr tags \<or>
        filePatternToStyleTags_cjs env pattern opts = Inr tags) \<longrightarrow>
         list_all2 (\<lambda>f tag. \<exists>d. tag =
           ''<link rel="stylesheet" href="'' @ drop (length ig) f @ ''?etag='' @ d @ ''">'') files tags)) \<and>
   (\<not> inline copts \<and> ignore copts = Some ig \<and> etag copts \<and>
    patternToFileNames env pattern ''.js'' = Inr files \<and>
    filePatternToScriptTags_cjs env pattern copts = Inr tags \<longrightarrow>
      list_all2 (\<lambda>f tag. \<exists>d. tag =
        ''<script src="'' @ drop (length ig) f @ ''?etag='' @ d @ ''"'' @
        (if async copts then '' async'' else if defer' copts then '' defer'' else []) @
        ''></script>'') files tags)\<close>
  (is "?off \<and> ?on1 \<and> ?on2")
proof -
  have 1: \<open>scriptTag_mjs env opts =
      (\<lambda>f. Inr (''<script src="'' @ drop (length ig) f @ ''"></script>''))\<close>
    if "\<not> inline opts" "ignore opts = Some ig" "\<not> etag opts"
    using that by (auto simp: scriptTag_mjs_def slice_def fun_eq_iff)
  have 2: \<open>styleTag_mjs env opts =
      (\<lambda>f. Inr (''<link rel="stylesheet" href="'' @ drop (length ig) f @ ''">''))\<close>
    if "\<not> inline opts" "ignore opts = Some ig" "\<not> etag opts"
    using that by (auto simp: styleTag_mjs_def slice_def fun_eq_iff)
  have 3: \<open>styleTag_cjs env opts =
      (\<lambda>f. Inr (''<link rel="stylesheet" href="'' @ drop (length ig) f @ ''">''))\<close>
    if "\<not> inline opts" "ignore opts = Some ig" "\<not> etag opts"
    using that by (auto simp: styleTag_cjs_def slice_def fun_eq_iff)
  have 4: \<open>scriptTag_cjs env copts =
      (\<lambda>f. Inr (''<script src="'' @ drop (length ig) f @ ''"'' @
                 (if async copts then '' async'' else if defer' copts then '' defer'' else []) @
                 ''></script>''))\<close>
    if "\<not> inline copts" "ignore copts = Some ig" "\<not> etag copts"
    using that by (auto simp: scriptTag_cjs_def slice_def fun_eq_iff attributes_cjs_def)
  have 5: \<open>\<exists>d. t = ''<script src="'' @ drop (length ig) f @ ''?etag='' @ d @ ''"></script>''\<close>
    if "\<not> inline opts" "ignore opts = Some ig" "etag opts" "scriptTag_mjs env opts f = Inr t"
    for f t
    using that
    by (cases "appendETagSHAToFilename env (drop (length ig) f)")
       (auto simp: scriptTag_mjs_def slice_def dest: appendETag_form)
  have 6: \<open>\<exists>d. t = ''<link rel="stylesheet" href="'' @ drop (length ig) f @ ''?etag='' @ d @ ''">''\<close>
    if "\<not> inline opts" "ignore opts = Some ig" "etag opts" "styleTag_mjs env opts f = Inr t"
    for f t
    using that
    by (cases "appendETagSHAToFilename env (drop (length ig) f)")
       (auto simp: styleTag_mjs_def slice_def dest: appendETag_form)
  have 7: \<open>\<exists>d. t = ''<link rel="stylesheet" href="'' @ drop (length ig) f @ ''?etag='' @ d @ ''">''\<close>
    if "\<not> inline opts" "ignore opts = Some ig" "etag opts" "styleTag_cjs env opts f = Inr t"
    for f t
    using that
    by (cases "appendETagSHAToFilename env (drop (length ig) f)")
       (auto simp: styleTag_cjs_def slice_def dest: appendETag_form)
  have 8: \<open>\<exists>d. t = ''<script src="'' @ drop (length ig) f @ ''?etag='' @ d @ ''"'' @
        (if async copts then '' async'' else if defer' copts then '' defer'' else []) @
        ''></script>''\<close>
    if "\<not> inline copts" "ignore copts = Some ig" "etag copts" "scriptTag_cjs env copts f = Inr t"
    for f t
    using that
    by (cases "appendETagSHAToFilename env (drop (length ig) f)")
       (auto simp: scriptTag_cjs_def slice_def attributes_cjs_def dest: appendETag_form)
  have off: ?off
    by (intro conjI impI)
       (simp_all add: filePatternToScriptTags_mjs_def filePatternToStyleTags_mjs_def
          filePatternToStyleTags_cjs_def filePatternToScriptTags_cjs_def 1 2 3 4 for_of_total)
  have on1: ?on1
    by (intro conjI impI; elim conjE disjE)
       (auto simp: filePatternToScriptTags_mjs_def filePatternToStyleTags_mjs_def
          filePatternToStyleTags_cjs_def elim!: for_of_form dest: 5 6 7)
  have on2: ?on2
    by (intro conjI impI; elim conjE)
       (auto simp: filePatternToScriptTags_cjs_def elim!: for_of_form dest: 8)
  show ?thesis by (rule conjI [OF off conjI [OF on1 on2]])
qed

theorem ignore_slice_witness:
  \<open>filePatternToScriptTags_mjs example_env ''assets''
     (example_options_mjs\<lparr>ignore := Some ''assets/''\<rparr>) =
     Inr [''<script src="a.js"></script>'', ''<script src="c.js"></script>''] \<and>
   filePatternToStyleTags_cjs example_env ''assets''
     (example_options\<lparr>ignore := Some ''static''\<rparr>) =
     Inr [''<link rel="stylesheet" href="/b.css">''] \<and>
   filePatternToScriptTags_cjs example_env ''assets''
     (example_options\<lparr>ignore := Some ''12345678''\<rparr>) =
     Inr [''<script src=".js"></script>'', ''<script src=".js"></script>''] \<and>
   filePatternToScriptTags_cjs example_env ''assets/a.js''
     (example_options\<lparr>ignore := Some ''assets/'', etag := True, defer' := True\<rparr>) =
     Inr [''<script src="a.js?etag=digest of let x" defer></script>'']\<close>
proof -
  have one: "patternToFileNames example_env ''assets/a.js'' ''.js'' = Inr [''assets/a.js'']"
    by (simp add: patternToFileNames_def example_env_def example_files_def)
  have tag: \<open>filePatternToScriptTags_cjs example_env ''assets/a.js''
     (example_options\<lparr>ignore := Some ''assets/'', etag := True, defer' := True\<rparr>) =
     Inr [''<script src="a.js?etag=digest of let x" defer></script>'']\<close>
    by (simp add: filePatternToScriptTags_cjs_def one scriptTag_cjs_def example_options_def
        slice_def appendETagSHAToFilename_def attributes_cjs_def)
       (simp add: example_env_def example_files_def)
  have js: "patternToFileNames example_env ''assets'' ''.js'' = Inr [''assets/a.js'', ''assets/c.js'']"
    by (simp add: patternToFileNames_def example_env_def endsWith_def)
  have css: "patternToFileNames example_env ''assets'' ''.css'' = Inr [''assets/b.css'']"
    by (simp add: patternToFileNames_def example_env_def endsWith_def)
  show ?thesis
    using
      ignore_slice [of "example_options_mjs\<lparr>ignore := Some ''assets/''\<rparr>" "''assets/''"
        example_env "''assets''" "[''assets/a.js'', ''assets/c.js'']" example_options]
      ignore_slice [of "example_options\<lparr>ignore := Some ''static''\<rparr>" "''static''"
        example_env "''assets''" "[''assets/b.css'']" example_options]
      ignore_slice [of example_options "''12345678''"
        example_env "''assets''" "[''assets/a.js'', ''assets/c.js'']"
        "example_options\<lparr>ignore := Some ''12345678''\<rparr>"]
      ignore_slice [of example_options "''assets/''"
        example_env "''assets/a.js''" "[''assets/a.js'']"
        "example_options\<lparr>ignore := Some ''assets/'', etag := True, defer' := True\<rparr>"
        \<open>[''<script src="a.js?etag=digest of let x" defer></script>'']\<close>]
    by (simp add: js css one tag [unfolded example_options_def, simplified]
        example_options_def example_options_mjs_def)
qed

text \<open>
  C7. In linked mode the CommonJS script makes one script tag per resolved file, in
  order: \<^verbatim>\<open><script src="\<close>, the path of that file without the first characters that
  \<^verbatim>\<open>--ignore\<close> counts, \<^verbatim>\<open>"\<close>, then \<^verbatim>\<open> async\<close> when async is asked for (also when defer
  is asked for too), \<^verbatim>\<open> defer\<close> when only defer is asked for and nothing otherwise,
  then \<^verbatim>\<open>></script>\<close>. With \<^verbatim>\<open>--etag\<close> the path is followed by \<^verbatim>\<open>?etag=\<close> and the
  digest of the file that this path names. The attribute list is the \<^verbatim>\<open>src\<close>
  attribute followed by at most one of the two and never holds both. The ES module
  has neither option and its script tags have neither attribute. The style tag of a
  file in linked mode is \<^verbatim>\<open><link rel="stylesheet" href="path">\<close> with the same path, in
  both files.
\<close>

theorem script_attributes:
  fixes opts :: "'a render_options_scheme" and copts :: "'b options_cjs_scheme"
  shows
  \<open>(\<not> inline copts \<and> patternToFileNames env pattern ''.js'' = Inr files \<longrightarrow>
      (\<not> etag copts \<longrightarrow>
         filePatternToScriptTags_cjs env pattern copts =
         Inr (map (\<lambda>f. ''<script src="'' @
                    (case ignore copts of None \<Rightarrow> f | Some ig \<Rightarrow> drop (length ig) f) @ ''"'' @
                    (if async copts then '' async'' else if defer' copts then '' defer'' else []) @
                    ''></script>'') files)) \<and>
      (etag copts \<and> filePatternToScriptTags_cjs env pattern copts = Inr tags \<longrightarrow>
         list_all2 (\<lambda>f tag. \<exists>sha content. createHash env = Inr sha \<and>
            readFile env (case ignore copts of None \<Rightarrow> f | Some ig \<Rightarrow> drop (length ig) f) =
              Inr content \<and>
            tag = ''<script src="'' @
              (case ignore copts of None \<Rightarrow> f | Some ig \<Rightarrow> drop (length ig) f) @
              ''?etag='' @ sha content @ ''"'' @
              (if async copts then '' async'' else if defer' copts then '' defer'' else []) @
              ''></script>'') files tags)) \<and>
   (async copts \<longrightarrow> attributes_cjs copts path = [''src="'' @ path @ ''"'', ''async'']) \<and>
   (\<not> async copts \<and> defer' copts \<longrightarrow>
      attributes_cjs copts path = [''src="'' @ path @ ''"'', ''defer'']) \<and>
   (\<not> async copts \<and> \<not> defer' copts \<longrightarrow> attributes_cjs copts path = [''src="'' @ path @ ''"'']) \<and>
   \<not> (''async'' \<in> set (attributes_cjs copts path) \<and> ''defer'' \<in> set (attributes_cjs copts path)) \<and>
   (\<not> inline opts \<and> patternToFileNames env pattern ''.js'' = Inr files \<longrightarrow>
      (\<not> etag opts \<longrightarrow>
         filePatternToScriptTags_mjs env pattern opts =
         Inr (map (\<lambda>f. ''<script src="'' @
                    (case ignore opts of None \<Rightarrow> f | Some ig \<Rightarrow> drop (length ig) f) @
                    ''"></script>'') files)) \<and>
      (etag opts \<and> filePatternToScriptTags_mjs env pattern opts = Inr tags \<longrightarrow>
         list_all2 (\<lambda>f tag. \<exists>sha content. createHash env = Inr sha \<and>
            readFile env (case ignore opts of None \<Rightarrow> f | Some ig \<Rightarrow> drop (length ig) f) =
              Inr content \<and>
            tag = ''<script src="'' @
              (case ignore opts of None \<Rightarrow> f | Some ig \<Rightarrow> drop (length ig) f) @
              ''?etag='' @ sha content @ ''"></script>'') files tags)) \<and>
   (\<not> inline opts \<and> patternToFileNames env pattern ''.css'' = Inr files \<longrightarrow>
      (\<not> etag opts \<longrightarrow>
         filePatternToStyleTags_mjs env pattern opts =
         Inr (map (\<lambda>f. ''<link rel="stylesheet" href="'' @
                    (case ignore opts of None \<Rightarrow> f | Some ig \<Rightarrow> drop (length ig) f) @
                    ''">'') files) \<and>
         filePatternToStyleTags_cjs env pattern opts =
         Inr (map (\<lambda>f. ''<link rel="stylesheet" href="'' @
                    (case ignore opts of None \<Rightarrow> f | Some ig \<Rightarrow> drop (length ig) f) @
                    ''">'') files)) \<and>
      (etag opts \<and>
       (filePatternToStyleTags_mjs env pattern opts = Inr tags \<or>
        filePatternToStyleTags_cjs env pattern opts = Inr tags) \<longrightarrow>
         list_all2 (\<lambda>f tag. \<exists>sha content. createHash env = Inr sha \<and>
            readFile env (case ignore opts of None \<Rightarrow> f | Some ig \<Rightarrow> drop (length ig) f) =
              Inr content \<and>
            tag = ''<link rel="stylesheet" href="'' @
              (case ignore opts of None \<Rightarrow> f | Some ig \<Rightarrow> drop (length ig) f) @
              ''?etag='' @ sha content @ ''">'') files tags))\<close>
  (is "?script \<and> ?a \<and> ?d \<and> ?n \<and> ?both \<and> ?plain \<and> ?style")
proof -
  let ?c = "\<lambda>f. case ignore copts of None \<Rightarrow> f | Some ig \<Rightarrow> drop (length ig) f"
  let ?p = "\<lambda>f. case ignore opts of None \<Rightarrow> f | Some ig \<Rightarrow> drop (length ig) f"
  let ?attr = "if async copts then '' async'' else if defer' copts then '' defer'' else []"
  have c1: \<open>scriptTag_cjs env copts =
      (\<lambda>f. Inr (''<script src="'' @ ?c f @ ''"'' @ ?attr @ ''></script>''))\<close>
    if "\<not> inline copts" "\<not> etag copts"
    using that
    by (auto simp: scriptTag_cjs_def slice_def fun_eq_iff attributes_cjs_def split: option.splits)
  have c2: \<open>\<exists>sha content. createHash env = Inr sha \<and> readFile env (?c f) = Inr content \<and>
      t = ''<script src="'' @ ?c f @ ''?etag='' @ sha content @ ''"'' @ ?attr @ ''></script>''\<close>
    if "\<not> inline copts" "etag copts" "scriptTag_cjs env copts f = Inr t" for f t
  proof -
    have sl: "(case ignore copts of Some ig \<Rightarrow> slice f (length ig) | None \<Rightarrow> f) = ?c f"
      by (simp add: slice_def split: option.splits)
    from that obtain p where p: "appendETagSHAToFilename env (?c f) = Inr p"
      and t: \<open>t = ''<script '' @ join '' '' (attributes_cjs copts p) @ ''></script>''\<close>
      by (cases "appendETagSHAToFilename env (?c f)") (auto simp: scriptTag_cjs_def Let_def sl)
    from appendETag_exact [OF p] obtain sha content where
      e: "createHash env = Inr sha" "readFile env (?c f) = Inr content"
        "p = ?c f @ ''?etag='' @ sha content"
      by blast
    have \<open>t = ''<script src="'' @ ?c f @ ''?etag='' @ sha content @ ''"'' @ ?attr @ ''></script>''\<close>
      unfolding t script_tag_cjs_form e(3) by simp
    with e(1,2) show ?thesis by blast
  qed
  have m1: \<open>scriptTag_mjs env opts = (\<lambda>f. Inr (''<script src="'' @ ?p f @ ''"></script>''))\<close>
    if "\<not> inline opts" "\<not> etag opts"
    using that by (auto simp: scriptTag_mjs_def slice_def fun_eq_iff split: option.splits)
  have m2: \<open>\<exists>sha content. createHash env = Inr sha \<and> readFile env (?p f) = Inr content \<and>
      t = ''<script src="'' @ ?p f @ ''?etag='' @ sha content @ ''"></script>''\<close>
    if "\<not> inline opts" "etag opts" "scriptTag_mjs env opts f = Inr t" for f t
  proof -
    have sl: "(case ignore opts of Some ig \<Rightarrow> slice f (length ig) | None \<Rightarrow> f) = ?p f"
      by (simp add: slice_def split: option.splits)
    from that obtain p where p: "appendETagSHAToFilename env (?p f) = Inr p"
      and t: \<open>t = ''<script src="'' @ p @ ''"></script>''\<close>
      by (cases "appendETagSHAToFilename env (?p f)") (auto simp: scriptTag_mjs_def Let_def sl)
    from appendETag_exact [OF p] t show ?thesis by auto
  qed
  have s1: \<open>styleTag_mjs env opts =
      (\<lambda>f. Inr (''<link rel="stylesheet" href="'' @ ?p f @ ''">''))\<close>
    \<open>styleTag_cjs env opts =
      (\<lambda>f. Inr (''<link rel="stylesheet" href="'' @ ?p f @ ''">''))\<close>
    if "\<not> inline opts" "\<not> etag opts"
    using that
    by (auto simp: styleTag_mjs_def styleTag_cjs_def slice_def fun_eq_iff split: option.splits)
  have s2: \<open>\<exists>sha content. createHash env = Inr sha \<and> readFile env (?p f) = Inr content \<and>
      t = ''<link rel="stylesheet" href="'' @ ?p f @ ''?etag='' @ sha content @ ''">''\<close>
    if "\<not> inline opts" "etag opts"
      "styleTag_mjs env opts f = Inr t \<or> styleTag_cjs env opts f = Inr t" for f t
  proof -
    have sl: "(case ignore opts of Some ig \<Rightarrow> slice f (length ig) | None \<Rightarrow> f) = ?p f"
      by (simp add: slice_def split: option.splits)
    from that obtain p where p: "appendETagSHAToFilename env (?p f) = Inr p"
      and t: \<open>t = ''<link rel="stylesheet" href="'' @ p @ ''">''\<close>
      by (cases "appendETagSHAToFilename env (?p f)")
         (auto simp: styleTag_mjs_def styleTag_cjs_def Let_def sl)
    from appendETag_exact [OF p] t show ?thesis by auto
  qed
  have script: ?script
  proof (intro impI conjI; elim conjE)
    assume "\<not> inline copts" "patternToFileNames env pattern ''.js'' = Inr files" "\<not> etag copts"
    then show \<open>filePatternToScriptTags_cjs env pattern copts =
        Inr (map (\<lambda>f. ''<script src="'' @ ?c f @ ''"'' @ ?attr @ ''></script>'') files)\<close>
      by (simp add: filePatternToScriptTags_cjs_def c1 for_of_total)
  next
    assume a: "\<not> inline copts" "patternToFileNames env pattern ''.js'' = Inr files" "etag copts"
      "filePatternToScriptTags_cjs env pattern copts = Inr tags"
    then have "for_of (scriptTag_cjs env copts) files = Inr tags"
      by (simp add: filePatternToScriptTags_cjs_def)
    then show \<open>list_all2 (\<lambda>f tag. \<exists>sha content. createHash env = Inr sha \<and>
        readFile env (?c f) = Inr content \<and>
        tag = ''<script src="'' @ ?c f @ ''?etag='' @ sha content @ ''"'' @ ?attr @
          ''></script>'') files tags\<close>
      by (rule for_of_form) (rule c2 [OF a(1,3)])
  qed
  have plain: ?plain
  proof (intro impI conjI; elim conjE)
    assume "\<not> inline opts" "patternToFileNames env pattern ''.js'' = Inr files" "\<not> etag opts"
    then show \<open>filePatternToScriptTags_mjs env pattern opts =
        Inr (map (\<lambda>f. ''<script src="'' @ ?p f @ ''"></script>'') files)\<close>
      by (simp add: filePatternToScriptTags_mjs_def m1 for_of_total)
  next
    assume a: "\<not> inline opts" "patternToFileNames env pattern ''.js'' = Inr files" "etag opts"
      "filePatternToScriptTags_mjs env pattern opts = Inr tags"
    then have "for_of (scriptTag_mjs env opts) files = Inr tags"
      by (simp add: filePatternToScriptTags_mjs_def)
    then show \<open>list_all2 (\<lambda>f tag. \<exists>sha content. createHash env = Inr sha \<and>
        readFile env (?p f) = Inr content \<and>
        tag = ''<script src="'' @ ?p f @ ''?etag='' @ sha content @ ''"></script>'') files tags\<close>
      by (rule for_of_form) (rule m2 [OF a(1,3)])
  qed
  have style: ?style
  proof (intro impI conjI; elim conjE)
    assume a: "\<not> inline opts" "patternToFileNames env pattern ''.css'' = Inr files" "\<not> etag opts"
    then show \<open>filePatternToStyleTags_mjs env pattern opts =
        Inr (map (\<lambda>f. ''<link rel="stylesheet" href="'' @ ?p f @ ''">'') files)\<close>
      by (simp add: filePatternToStyleTags_mjs_def s1 for_of_total)
    from a show \<open>filePatternToStyleTags_cjs env pattern opts =
        Inr (map (\<lambda>f. ''<link rel="stylesheet" href="'' @ ?p f @ ''">'') files)\<close>
      by (simp add: filePatternToStyleTags_cjs_def s1 for_of_total)
  next
    assume a: "\<not> inline opts" "patternToFileNames env pattern ''.css'' = Inr files" "etag opts"
      "filePatternToStyleTags_mjs env pattern opts = Inr tags \<or>
       filePatternToStyleTags_cjs env pattern opts = Inr tags"
    then have "for_of (styleTag_mjs env opts) files = Inr tags \<or>
        for_of (styleTag_cjs env opts) files = Inr tags"
      by (simp add: filePatternToStyleTags_mjs_def filePatternToStyleTags_cjs_def)
    then show \<open>list_all2 (\<lambda>f tag. \<exists>sha content. createHash env = Inr sha \<and>
        readFile env (?p f) = Inr content \<and>
        tag = ''<link rel="stylesheet" href="'' @ ?p f @ ''?etag='' @ sha content @ ''">'')
        files tags\<close>
    proof
      assume "for_of (styleTag_mjs env opts) files = Inr tags"
      then show ?thesis by (rule for_of_form) (rule s2 [OF a(1,3)], rule disjI1)
    next
      assume "for_of (styleTag_cjs env opts) files = Inr tags"
      then show ?thesis by (rule for_of_form) (rule s2 [OF a(1,3)], rule disjI2)
    qed
  qed
  have a: ?a and d: ?d and n: ?n and both: ?both
    by (auto simp: attributes_cjs_def Let_def)
  show ?thesis
    by (rule conjI [OF script conjI [OF a conjI [OF d conjI [OF n conjI [OF both
          conjI [OF plain style]]]]]])
qed

theorem script_attributes_witness:
  \<open>filePatternToScriptTags_cjs example_env ''assets''
     (example_options\<lparr>async := True, defer' := True\<rparr>) =
     Inr [''<script src="assets/a.js" async></script>'',
          ''<script src="assets/c.js" async></script>''] \<and>
   filePatternToScriptTags_cjs example_env ''assets''
     (example_options\<lparr>ignore := Some ''assets/'', defer' := True\<rparr>) =
     Inr [''<script src="a.js" defer></script>'', ''<script src="c.js" defer></script>''] \<and>
   filePatternToScriptTags_cjs example_env ''assets'' example_options =
     Inr [''<script src="assets/a.js"></script>'', ''<script src="assets/c.js"></script>''] \<and>
   filePatternToScriptTags_mjs example_env ''assets'' example_options_mjs =
     Inr [''<script src="assets/a.js"></script>'', ''<script src="assets/c.js"></script>''] \<and>
   filePatternToStyleTags_cjs example_env ''assets'' example_options =
     Inr [''<link rel="stylesheet" href="assets/b.css">''] \<and>
   filePatternToStyleTags_mjs example_env ''assets'' example_options_mjs =
     Inr [''<link rel="stylesheet" href="assets/b.css">''] \<and>
   attributes_cjs (example_options\<lparr>async := True, defer' := True\<rparr>) ''assets/a.js'' =
     [''src="assets/a.js"'', ''async''] \<and>
   list_all2 (\<lambda>f tag. \<exists>content. readFile example_env f = Inr content \<and>
       tag = ''<script src="'' @ f @ ''?etag=digest of '' @ content @ ''" async></script>'')
     [''assets/a.js'', ''assets/c.js'']
     [''<script src="assets/a.js?etag=digest of let a" async></script>'',
      ''<script src="assets/c.js?etag=digest of let c" async></script>'']\<close>
  (is "?w1 \<and> ?w2 \<and> ?w3 \<and> ?w4 \<and> ?w5 \<and> ?w6 \<and> ?w7 \<and> ?w8")
proof -
  let ?ad = "example_options\<lparr>async := True, defer' := True\<rparr>"
  let ?id = "example_options\<lparr>ignore := Some ''assets/'', defer' := True\<rparr>"
  let ?ea = "example_options\<lparr>etag := True, async := True\<rparr>"
  let ?js = "[''assets/a.js'', ''assets/c.js'']"
  have js: "patternToFileNames example_env ''assets'' ''.js'' = Inr ?js"
    by (simp add: patternToFileNames_def example_env_def endsWith_def)
  have css: "patternToFileNames example_env ''assets'' ''.css'' = Inr [''assets/b.css'']"
    by (simp add: patternToFileNames_def example_env_def endsWith_def)
  have ad: "\<not> inline ?ad" "\<not> etag ?ad" "ignore ?ad = None" "async ?ad"
    and id: "\<not> inline ?id" "\<not> etag ?id" "ignore ?id = Some ''assets/''" "\<not> async ?id" "defer' ?id"
    and ea: "\<not> inline ?ea" "etag ?ea" "ignore ?ea = None" "async ?ea"
    and c: "\<not> inline example_options" "\<not> etag example_options" "ignore example_options = None"
      "\<not> async example_options" "\<not> defer' example_options"
    and m: "\<not> inline example_options_mjs" "\<not> etag example_options_mjs"
      "ignore example_options_mjs = None"
    by (simp_all add: example_options_def example_options_mjs_def)
  have rd: "createHash example_env = Inr (\<lambda>content. ''digest of '' @ content)"
    "readFile example_env ''assets/a.js'' = Inr ''let a''"
    "readFile example_env ''assets/c.js'' = Inr ''let c''"
    by (simp_all add: example_env_def example_files_def)
  have e: \<open>filePatternToScriptTags_cjs example_env ''assets'' ?ea =
      Inr [''<script src="assets/a.js?etag=digest of let a" async></script>'',
           ''<script src="assets/c.js?etag=digest of let c" async></script>'']\<close>
    by (simp add: filePatternToScriptTags_cjs_def js scriptTag_cjs_def example_options_def
        slice_def appendETagSHAToFilename_def attributes_cjs_def rd)
  note t1 = script_attributes [of ?ad example_env "''assets''" ?js "[]" "''assets/a.js''"
      example_options_mjs]
  note t2 = script_attributes [of ?id example_env "''assets''" ?js "[]" "''assets/a.js''"
      example_options_mjs]
  note t3 = script_attributes [of example_options example_env "''assets''" ?js "[]"
      "''assets/a.js''" example_options_mjs]
  note t5 = script_attributes [of example_options example_env "''assets''" "[''assets/b.css'']"
      "[]" "''assets/b.css''" example_options]
  note t6 = script_attributes [of example_options example_env "''assets''" "[''assets/b.css'']"
      "[]" "''assets/b.css''" example_options_mjs]
  note t8 = script_attributes [of ?ea example_env "''assets''" ?js
      \<open>[''<script src="assets/a.js?etag=digest of let a" async></script>'',
        ''<script src="assets/c.js?etag=digest of let c" async></script>'']\<close>
      "''assets/a.js''" example_options_mjs]
  have w1: ?w1
    using t1 [THEN conjunct1, rule_format, THEN conjunct1, rule_format,
        OF conjI [OF ad(1) js] ad(2)]
    by (simp add: ad)
  have w2: ?w2
    using t2 [THEN conjunct1, rule_format, THEN conjunct1, rule_format,
        OF conjI [OF id(1) js] id(2)]
    by (simp add: id)
  have w3: ?w3
    using t3 [THEN conjunct1, rule_format, THEN conjunct1, rule_format,
        OF conjI [OF c(1) js] c(2)]
    by (simp add: c)
  have w4: ?w4
    using t3 [THEN conjunct2, THEN conjunct2, THEN conjunct2, THEN conjunct2, THEN conjunct2,
        THEN conjunct1, rule_format, THEN conjunct1, rule_format, OF conjI [OF m(1) js] m(2)]
    by (simp add: m)
  have w5: ?w5
    using t5 [THEN conjunct2, THEN conjunct2, THEN conjunct2, THEN conjunct2, THEN conjunct2,
        THEN conjunct2, rule_format, THEN conjunct1, rule_format, THEN conjunct2,
        OF conjI [OF c(1) css] c(2)]
    by (simp add: c)
  have w6: ?w6
    using t6 [THEN conjunct2, THEN conjunct2, THEN conjunct2, THEN conjunct2, THEN conjunct2,
        THEN conjunct2, rule_format, THEN conjunct1, rule_format, THEN conjunct1,
        OF conjI [OF m(1) css] m(2)]
    by (simp add: m)
  have w7: ?w7
    using t1 [THEN conjunct2, THEN conjunct1, rule_format, OF ad(4)] by simp
  have w8: ?w8
    using t8 [THEN conjunct1, rule_format, THEN conjunct2, rule_format,
        OF conjI [OF ea(1) js] conjI [OF ea(2) e]]
    by (simp add: ea rd)
  show ?thesis
    by (rule conjI [OF w1 conjI [OF w2 conjI [OF w3 conjI [OF w4 conjI [OF w5 conjI [OF w6
          conjI [OF w7 w8]]]]]]])
qed

subsection \<open>The two files\<close>

text \<open>
  C10. When neither async nor defer is asked for, the tag functions of the CommonJS
  script return what those of the ES module return, for every pattern, environment and
  other option, errors included; the two pipelines are equal on every input, chunk by
  chunk.
\<close>

theorem implementations_agree:
  fixes copts :: "'a options_cjs_scheme"
  shows
  "\<not> async copts \<and> \<not> defer' copts \<longrightarrow>
     filePatternToScriptTags_cjs env pattern copts = filePatternToScriptTags_mjs env pattern copts \<and>
     filePatternToStyleTags_cjs env pattern copts = filePatternToStyleTags_mjs env pattern copts \<and>
     transform_cjs jsFiles cssFiles revision' removeCondition' chunks =
     transform_mjs jsFiles cssFiles revision' removeCondition' chunks"
proof (intro impI conjI)
  assume a: "\<not> async copts \<and> \<not> defer' copts"
  then have "scriptTag_cjs env copts = scriptTag_mjs env copts"
    by (auto simp: fun_eq_iff scriptTag_cjs_def scriptTag_mjs_def attributes_cjs_def Let_def)
  then show "filePatternToScriptTags_cjs env pattern copts = filePatternToScriptTags_mjs env pattern copts"
    by (simp add: filePatternToScriptTags_cjs_def filePatternToScriptTags_mjs_def)
  have "styleTag_cjs env copts = styleTag_mjs env copts"
    by (auto simp: fun_eq_iff styleTag_cjs_def styleTag_mjs_def)
  then show "filePatternToStyleTags_cjs env pattern copts = filePatternToStyleTags_mjs env pattern copts"
    by (simp add: filePatternToStyleTags_cjs_def filePatternToStyleTags_mjs_def)
  show "transform_cjs jsFiles cssFiles revision' removeCondition' chunks =
     transform_mjs jsFiles cssFiles revision' removeCondition' chunks"
    by (simp add: transform_cjs_def transform_mjs_def)
qed

theorem implementations_agree_witness:
  "filePatternToScriptTags_cjs example_env ''assets'' example_options =
     filePatternToScriptTags_mjs example_env ''assets'' example_options \<and>
   filePatternToStyleTags_cjs example_env ''assets'' example_options =
     filePatternToStyleTags_mjs example_env ''assets'' example_options \<and>
   transform_cjs [''<script src=\"a.js\"></script>''] [] [] ''development''
     [''<!-- inject:js --><!-- endinject --><!-- remove:development -->X<!-- endremove -->''] =
   transform_mjs [''<script src=\"a.js\"></script>''] [] [] ''development''
     [''<!-- inject:js --><!-- endinject --><!-- remove:development -->X<!-- endremove -->'']"
  using implementations_agree [of example_options example_env "''assets''"
      "[''<script src=\"a.js\"></script>'']" "[]" "[]" "''development''"
      "[''<!-- inject:js --><!-- endinject --><!-- remove:development -->X<!-- endremove -->'']"]
  by (simp add: example_options_def)

subsection \<open>The etag\<close>

text \<open>
  Without an ignore prefix the digest in the tag is the digest of the resolved file.
\<close>

lemma etag_without_ignore:
  fixes opts :: "'a render_options_scheme" and copts :: "'b options_cjs_scheme"
  assumes "createHash env = Inr sha" "readFile env f = Inr content"
  shows \<open>\<not> inline opts \<and> ignore opts = None \<and> etag opts \<longrightarrow>
     scriptTag_mjs env opts f = Inr (''<script src="'' @ f @ ''?etag='' @ sha content @ ''"></script>'') \<and>
     styleTag_mjs env opts f =
       Inr (''<link rel="stylesheet" href="'' @ f @ ''?etag='' @ sha content @ ''">'') \<and>
     styleTag_cjs env opts f =
       Inr (''<link rel="stylesheet" href="'' @ f @ ''?etag='' @ sha content @ ''">'')\<close>
  using assms
  by (simp add: scriptTag_mjs_def styleTag_mjs_def styleTag_cjs_def appendETagSHAToFilename_def)

text \<open>
  C6 does not hold with an ignore prefix: \<^verbatim>\<open>appendETagSHAToFilename\<close> is called with the
  sliced path and reads the file of that name. For the resolved file \<^verbatim>\<open>assets/a.js\<close>
  and the prefix \<^verbatim>\<open>assets/\<close> it reads \<^verbatim>\<open>a.js\<close> of the working directory and the tag
  carries the digest of that other file; for \<^verbatim>\<open>assets/b.css\<close>, with no \<^verbatim>\<open>b.css\<close> in the
  working directory, the read throws and no tag is made.
\<close>

theorem etag_reads_sliced_path:
  \<open>readFile example_env ''assets/a.js'' = Inr ''let a'' \<and>
   filePatternToScriptTags_cjs example_env ''assets/a.js''
     (example_options\<lparr>ignore := Some ''assets/'', etag := True\<rparr>) =
     Inr [''<script src="a.js?etag=digest of let x"></script>''] \<and>
   filePatternToScriptTags_mjs example_env ''assets/a.js''
     (example_options_mjs\<lparr>ignore := Some ''assets/'', etag := True\<rparr>) =
     Inr [''<script src="a.js?etag=digest of let x"></script>''] \<and>
   filePatternToStyleTags_mjs example_env ''assets/b.css''
     (example_options_mjs\<lparr>ignore := Some ''assets/'', etag := True\<rparr>) =
     Inl (SystemError ''ENOENT'')\<close>
proof -
  have js: "patternToFileNames example_env ''assets/a.js'' ''.js'' = Inr [''assets/a.js'']"
    by (simp add: patternToFileNames_def example_env_def example_files_def)
  have css: "patternToFileNames example_env ''assets/b.css'' ''.css'' = Inr [''assets/b.css'']"
    by (simp add: patternToFileNames_def example_env_def example_files_def)
  have rd: "readFile example_env ''assets/a.js'' = Inr ''let a''"
    "readFile example_env ''a.js'' = Inr ''let x''"
    "readFile example_env ''b.css'' = Inl (SystemError ''ENOENT'')"
    "createHash example_env = Inr (\<lambda>content. ''digest of '' @ content)"
    by (simp_all add: example_env_def example_files_def)
  show ?thesis
    by (simp add: filePatternToScriptTags_cjs_def filePatternToScriptTags_mjs_def
        filePatternToStyleTags_mjs_def js css scriptTag_cjs_def scriptTag_mjs_def styleTag_mjs_def
        example_options_def example_options_mjs_def slice_def appendETagSHAToFilename_def
        attributes_cjs_def rd)
qed

subsection \<open>A pattern that names nothing\<close>

text \<open>
  In the CommonJS script a pattern without glob magic that \<^verbatim>\<open>lstat\<close> does not find ends
  the run with the message that names the pattern.
\<close>

lemma missing_pattern_cjs:
  assumes "resolve_input env options = Inr i" "js options = Some p" "p \<noteq> []"
    "\<not> hasMagic env p" "lstat env p = Inl e"
  shows "run_cjs env options =
    Some (Exit (''File or folder '' @ [CHR 0x27] @ p @ [CHR 0x27] @ '' not found''))"
  using assms
  by (simp add: run_cjs_def resolve_js_cjs_def filePatternToScriptTags_cjs_def
      patternToFileNames_def)

text \<open>
  C8 does not hold in the ES module: for a missing \<^verbatim>\<open>--js\<close> or \<^verbatim>\<open>--css\<close> path its
  \<^verbatim>\<open>catch\<close> block throws a reference error for the unbound name \<^verbatim>\<open>js\<close> or \<^verbatim>\<open>css\<close>
  before it prints anything, where the CommonJS script exits with the message
  \<^verbatim>\<open>File or folder 'missing.js' not found\<close>.
\<close>

theorem missing_pattern_mjs:
  "run_mjs example_env (example_options_mjs\<lparr>js := Some ''missing.js''\<rparr>) =
     Some (Uncaught (ReferenceError ''js'')) \<and>
   run_mjs example_env (example_options_mjs\<lparr>css := Some ''missing.css''\<rparr>) =
     Some (Uncaught (ReferenceError ''css'')) \<and>
   run_cjs example_env (example_options\<lparr>js := Some ''missing.js''\<rparr>) =
     Some (Exit (''File or folder '' @ [CHR 0x27] @ ''missing.js'' @ [CHR 0x27] @ '' not found''))"
proof -
  have inp: "resolve_input example_env (example_options_mjs\<lparr>js := Some ''missing.js''\<rparr>) = Inr ''/w/index.html''"
    "resolve_input example_env (example_options_mjs\<lparr>css := Some ''missing.css''\<rparr>) = Inr ''/w/index.html''"
    "resolve_input example_env (example_options\<lparr>js := Some ''missing.js''\<rparr>) = Inr ''/w/index.html''"
    by (simp_all add: resolve_input_def getFullPath_def example_options_mjs_def example_options_def
        example_env_def example_files_def)
  have st: "lstat example_env ''missing.js'' = Inl (SystemError ''ENOENT'')"
    "lstat example_env ''missing.css'' = Inl (SystemError ''ENOENT'')"
    "\<not> hasMagic example_env ''missing.js''" "\<not> hasMagic example_env ''missing.css''"
    by (simp_all add: example_env_def example_files_def)
  show ?thesis
    by (simp add: run_mjs_def run_cjs_def inp resolve_js_mjs_def resolve_css_mjs_def
        resolve_js_cjs_def filePatternToScriptTags_mjs_def filePatternToStyleTags_mjs_def
        filePatternToScriptTags_cjs_def patternToFileNames_def st)
       (simp add: example_options_mjs_def example_options_def st)
qed

subsection \<open>The remove stage\<close>











subsection \<open>A run without options\<close>










end
